theory Spec2Isabelle
  imports Main "HOL-Library.Multiset"
begin

section \<open>Table reconstruction of \<open>arynsdk/partition/partition.py\<close>\<close>

text \<open>
  The function \<open>tables_to_pandas\<close> turns every table element of a partitioning
  response into a dense grid with flattened column labels. The model below follows the
  source statement by statement. Python exceptions are values of type \<open>error\<close>; a
  computation that may raise returns \<open>error + 'a\<close> with \<open>Inl\<close> for the exception.
\<close>

subsection \<open>Data model\<close>

text \<open>
  The exception classes the code can raise: \<open>IndexError\<close> (a list subscript such as
  \<open>cell["rows"][0]\<close> on an empty list, or a numpy subscript outside the array),
  \<open>TypeError\<close> (\<open>str.join\<close> on an item that is not a string) and \<open>ValueError\<close>
  (\<open>np.empty\<close> with a negative dimension). Exception messages are not modelled.
\<close>

datatype error = IndexError | TypeError | ValueError

text \<open>A cell dictionary: keys \<open>rows\<close>, \<open>cols\<close>, \<open>content\<close>, \<open>is_header\<close>.\<close>

record cell =
  rows :: "int list"
  cols :: "int list"
  content :: string
  is_header :: bool

text \<open>A table dictionary: keys \<open>num_rows\<close>, \<open>num_cols\<close>, \<open>cells\<close>.\<close>

record table =
  num_rows :: int
  num_cols :: int
  cells :: "cell list"

text \<open>
  An element dictionary: \<open>e["type"]\<close> and \<open>e["table"]\<close>, where \<open>None\<close> is JSON null.
  Every other key of the element lives in the extension part of the record.
\<close>

record element =
  etype :: string
  etable :: "table option"

text \<open>
  A two-dimensional numpy array of dtype object: its shape and a store from positions to
  values. \<open>None\<close> is the value \<open>np.empty\<close> leaves in every slot (Python's \<open>None\<close>),
  \<open>Some s\<close> is the string \<open>s\<close>; so the unset marker differs from \<open>Some ''''\<close>.
\<close>

record ndarray =
  nd_rows :: nat
  nd_cols :: nat
  nd_data :: "nat \<times> nat \<Rightarrow> string option"

text \<open>The data frame built for a table: the column labels, if any, and the rows of values.\<close>

record dataframe =
  df_columns :: "string list option"
  df_values :: "string option list list"

subsection \<open>Header-row set and header prefix (lines 147--154)\<close>

text \<open>
  \<open>sorted(set(row_num for cell in table["cells"] for row_num in cell["rows"]
  if cell["is_header"]))\<close>
\<close>

definition header_rows :: "cell list \<Rightarrow> int list" where
  "header_rows cs =
     sort (remdups (concat (map (\<lambda>cell. filter (\<lambda>row_num. is_header cell) (rows cell)) cs)))"

text \<open>
  \<open>i = -1; for i in range(len(header_rows)): if header_rows[i] != i: break\<close>.
  The third argument is the current value of the variable \<open>i\<close>; the second is what is
  left of the range.
\<close>

fun scan_range :: "int list \<Rightarrow> nat list \<Rightarrow> int \<Rightarrow> int" where
  "scan_range H [] i = i"
| "scan_range H (k # ks) i = (if H ! k \<noteq> int k then int k else scan_range H ks (int k))"

definition header_prefix :: "int list \<Rightarrow> int" where
  "header_prefix H = scan_range H [0..<length H] (- 1)"

definition max_header_prefix_row :: "cell list \<Rightarrow> int" where
  "max_header_prefix_row cs = header_prefix (header_rows cs)"

subsection \<open>Grid assembly (lines 155--172)\<close>

text \<open>\<open>np.empty([grid_height, grid_width], dtype="object")\<close>\<close>

definition np_empty :: "int \<Rightarrow> int \<Rightarrow> error + ndarray" where
  "np_empty h w =
     (if h < 0 \<or> w < 0 then Inl ValueError
      else Inr \<lparr>nd_rows = nat h, nd_cols = nat w, nd_data = (\<lambda>p. None)\<rparr>)"

text \<open>
  An integer subscript on an axis of size \<open>n\<close>: numpy accepts \<open>-n \<le> i < n\<close> and counts a
  negative index from the end.
\<close>

definition norm_index :: "int \<Rightarrow> nat \<Rightarrow> nat option" where
  "norm_index i n =
     (if 0 \<le> i \<and> i < int n then Some (nat i)
      else if - int n \<le> i \<and> i < 0 then Some (nat (i + int n))
      else None)"

text \<open>
  \<open>grid[r, c] = v\<close>. The subscripts are treated as numpy treats a subscript that fits a
  machine index, \<open>-2^63 \<le> i < 2^63\<close>. A subscript beyond that range never reaches the
  bounds check: numpy fails while converting it, with \<open>OverflowError\<close> for \<open>2^63\<close>. The
  model has no class for that failure and reports it as \<open>IndexError\<close>; the predicate
  \<open>subscripts_fit\<close> below names the tables on which the two agree.
\<close>

definition setitem :: "ndarray \<Rightarrow> int \<Rightarrow> int \<Rightarrow> string \<Rightarrow> error + ndarray" where
  "setitem g r c v =
     (case norm_index r (nd_rows g) of
        None \<Rightarrow> Inl IndexError
      | Some r' \<Rightarrow>
          (case norm_index c (nd_cols g) of
             None \<Rightarrow> Inl IndexError
           | Some c' \<Rightarrow> Inr (g\<lparr>nd_data := (nd_data g)((r', c') \<mapsto> v)\<rparr>)))"

text \<open>\<open>for col in cs: grid[r, col] = v\<close>\<close>

fun set_row :: "int \<Rightarrow> string \<Rightarrow> int list \<Rightarrow> ndarray \<Rightarrow> error + ndarray" where
  "set_row r v [] g = Inr g"
| "set_row r v (col # cs) g =
     (case setitem g r col v of Inl e \<Rightarrow> Inl e | Inr g' \<Rightarrow> set_row r v cs g')"

text \<open>\<open>for row in rs: for col in cs: grid[row, col] = ""\<close>\<close>

fun blank_rows :: "int list \<Rightarrow> int list \<Rightarrow> ndarray \<Rightarrow> error + ndarray" where
  "blank_rows [] cs g = Inr g"
| "blank_rows (row # rs) cs g =
     (case set_row row [] cs g of Inl e \<Rightarrow> Inl e | Inr g' \<Rightarrow> blank_rows rs cs g')"

text \<open>
  The \<open>else\<close> branch of the loop body (lines 167--172). \<open>cell["rows"][0]\<close> and
  \<open>cell["cols"][0]\<close> raise \<open>IndexError\<close> on an empty list; \<open>xs[1:]\<close> is \<open>tl xs\<close>.
\<close>

definition fill_data :: "cell \<Rightarrow> ndarray \<Rightarrow> error + ndarray" where
  "fill_data cell g =
     (case rows cell of
        [] \<Rightarrow> Inl IndexError
      | r0 # rs \<Rightarrow>
          (case cols cell of
             [] \<Rightarrow> Inl IndexError
           | c0 # cs \<Rightarrow>
               (case setitem g r0 c0 (content cell) of
                  Inl e \<Rightarrow> Inl e
                | Inr g1 \<Rightarrow>
                    (case set_row r0 [] cs g1 of
                       Inl e \<Rightarrow> Inl e
                     | Inr g2 \<Rightarrow> blank_rows rs (cols cell) g2))))"

text \<open>
  The loop body (lines 160--172). The test
  \<open>cell["is_header"] and cell["rows"][0] <= max_header_prefix_row\<close> reads
  \<open>cell["rows"][0]\<close> only when the cell is a header cell.
\<close>

definition fill_cell :: "int \<Rightarrow> cell \<Rightarrow> ndarray \<Rightarrow> error + ndarray" where
  "fill_cell m cell g =
     (if is_header cell then
        (case rows cell of
           [] \<Rightarrow> Inl IndexError
         | r0 # rs \<Rightarrow>
             if r0 \<le> m then
               (case set_row r0 (content cell) (cols cell) g of
                  Inl e \<Rightarrow> Inl e
                | Inr g1 \<Rightarrow> blank_rows rs (cols cell) g1)
             else fill_data cell g)
      else fill_data cell g)"

text \<open>\<open>for cell in table["cells"]: ...\<close>\<close>

fun fill_cells :: "int \<Rightarrow> cell list \<Rightarrow> ndarray \<Rightarrow> error + ndarray" where
  "fill_cells m [] g = Inr g"
| "fill_cells m (cell # cs) g =
     (case fill_cell m cell g of Inl e \<Rightarrow> Inl e | Inr g' \<Rightarrow> fill_cells m cs g')"

text \<open>Lines 155--172 together: the grid of a table once every cell is written.\<close>

definition build_grid :: "table \<Rightarrow> error + ndarray" where
  "build_grid t =
     (case np_empty (num_rows t) (num_cols t) of
        Inl e \<Rightarrow> Inl e
      | Inr g \<Rightarrow> fill_cells (max_header_prefix_row (cells t)) (cells t) g)"

subsection \<open>Header flattening and the data frame (lines 174--182)\<close>

text \<open>
  A slice bound \<open>s\<close> on an axis of size \<open>n\<close>: a negative bound counts from the end, and
  the result is clipped to \<open>[0, n]\<close>.
\<close>

definition clip_bound :: "int \<Rightarrow> nat \<Rightarrow> nat" where
  "clip_bound s n = (if s < 0 then nat (max 0 (int n + s)) else min (nat s) n)"

text \<open>\<open>g[:s, :]\<close>\<close>

definition rows_upto :: "ndarray \<Rightarrow> int \<Rightarrow> ndarray" where
  "rows_upto g s = g\<lparr>nd_rows := clip_bound s (nd_rows g)\<rparr>"

text \<open>\<open>g[s:, :]\<close>\<close>

definition rows_from :: "ndarray \<Rightarrow> int \<Rightarrow> ndarray" where
  "rows_from g s =
     (let k = clip_bound s (nd_rows g)
      in \<lparr>nd_rows = nd_rows g - k, nd_cols = nd_cols g,
          nd_data = (\<lambda>(r, c). nd_data g (r + k, c))\<rparr>)"

text \<open>\<open>g.transpose()\<close>\<close>

definition transpose_nd :: "ndarray \<Rightarrow> ndarray" where
  "transpose_nd g =
     \<lparr>nd_rows = nd_cols g, nd_cols = nd_rows g, nd_data = (\<lambda>(r, c). nd_data g (c, r))\<rparr>"

text \<open>Iterating over a two-dimensional array yields its rows, first to last.\<close>

definition nd_iter :: "ndarray \<Rightarrow> string option list list" where
  "nd_iter g = map (\<lambda>r. map (\<lambda>c. nd_data g (r, c)) [0..<nd_cols g]) [0..<nd_rows g]"

text \<open>
  \<open>OrderedDict.fromkeys(xs)\<close>: the keys in insertion order. The first argument is the
  dictionary built so far; a key already present keeps its place.
\<close>

fun fromkeys :: "'a list \<Rightarrow> 'a list \<Rightarrow> 'a list" where
  "fromkeys keys [] = keys"
| "fromkeys keys (x # xs) =
     (if x \<in> set keys then fromkeys keys xs else fromkeys (keys @ [x]) xs)"

text \<open>\<open>sep.join(xs)\<close> on strings.\<close>

fun join :: "string \<Rightarrow> string list \<Rightarrow> string" where
  "join sep [] = []"
| "join sep [x] = x"
| "join sep (x # y # ys) = x @ sep @ join sep (y # ys)"

text \<open>\<open>sep.join(xs)\<close> on objects: an item that is \<open>None\<close> raises \<open>TypeError\<close>.\<close>

definition str_join :: "string \<Rightarrow> string option list \<Rightarrow> error + string" where
  "str_join sep xs = (if None \<in> set xs then Inl TypeError else Inr (join sep (map the xs)))"

text \<open>
  \<open>" | ".join(OrderedDict.fromkeys((c for c in npcol if c != "")))\<close>.
  The filter drops the empty string only; an unset slot passes it.
\<close>

definition flatten_column :: "string option list \<Rightarrow> error + string" where
  "flatten_column npcol =
     str_join '' | '' (fromkeys [] (filter (\<lambda>c. c \<noteq> Some []) npcol))"

text \<open>\<open>for npcol in ...: flattened_header.append(...)\<close>\<close>

fun flatten_columns :: "string option list list \<Rightarrow> error + string list" where
  "flatten_columns [] = Inr []"
| "flatten_columns (npcol # rest) =
     (case flatten_column npcol of
        Inl e \<Rightarrow> Inl e
      | Inr s \<Rightarrow> (case flatten_columns rest of Inl e \<Rightarrow> Inl e | Inr ss \<Rightarrow> Inr (s # ss)))"

text \<open>Lines 174--182: the data frame of an assembled grid.\<close>

definition grid_to_dataframe :: "ndarray \<Rightarrow> int \<Rightarrow> error + dataframe" where
  "grid_to_dataframe g m =
     (case flatten_columns (nd_iter (transpose_nd (rows_upto g (m + 1)))) of
        Inl e \<Rightarrow> Inl e
      | Inr flattened_header \<Rightarrow>
          Inr \<lparr>df_columns = (if m \<ge> 0 then Some flattened_header else None),
               df_values = nd_iter (rows_from g (m + 1))\<rparr>)"

text \<open>Lines 146--182: what the loop body computes for one table.\<close>

definition table_to_dataframe :: "table \<Rightarrow> error + dataframe" where
  "table_to_dataframe t =
     (case build_grid t of
        Inl e \<Rightarrow> Inl e
      | Inr g \<Rightarrow> grid_to_dataframe g (max_header_prefix_row (cells t)))"

subsection \<open>The loop over the elements (lines 143--187)\<close>

text \<open>
  \<open>tables_to_pandas\<close> on \<open>data["elements"]\<close>. An exception raised for one element
  leaves the function; nothing catches it.
\<close>

fun tables_to_pandas ::
  "'a element_scheme list \<Rightarrow> error + ('a element_scheme \<times> dataframe option) list" where
  "tables_to_pandas [] = Inr []"
| "tables_to_pandas (e # es) =
     (if etype e = ''table'' \<and> etable e \<noteq> None then
        (case table_to_dataframe (the (etable e)) of
           Inl err \<Rightarrow> Inl err
         | Inr df \<Rightarrow>
             (case tables_to_pandas es of
                Inl err \<Rightarrow> Inl err
              | Inr results \<Rightarrow> Inr ((e, Some df) # results)))
      else
        (case tables_to_pandas es of
           Inl err \<Rightarrow> Inl err
         | Inr results \<Rightarrow> Inr ((e, None) # results)))"

subsection \<open>Notions used in the statements\<close>

text \<open>The span of a cell: the positions \<open>rows \<times> cols\<close> it names.\<close>

definition span :: "cell \<Rightarrow> (int \<times> int) set" where
  "span cell = set (rows cell) \<times> set (cols cell)"

text \<open>Every cell has at least one row index and one column index.\<close>

definition spans_nonempty :: "cell list \<Rightarrow> bool" where
  "spans_nonempty cs = (\<forall>cell \<in> set cs. rows cell \<noteq> [] \<and> cols cell \<noteq> [])"

text \<open>Every index of every cell lies in \<open>[0, num_rows)\<close>, respectively \<open>[0, num_cols)\<close>.\<close>

definition spans_in_bounds :: "table \<Rightarrow> bool" where
  "spans_in_bounds t =
     (\<forall>cell \<in> set (cells t).
        (\<forall>r \<in> set (rows cell). 0 \<le> r \<and> r < num_rows t) \<and>
        (\<forall>c \<in> set (cols cell). 0 \<le> c \<and> c < num_cols t))"

text \<open>Position \<open>(r, c)\<close> of the grid lies in the span of some cell.\<close>

definition covered :: "cell list \<Rightarrow> nat \<Rightarrow> nat \<Rightarrow> bool" where
  "covered cs r c = (\<exists>cell \<in> set cs. (int r, int c) \<in> span cell)"

text \<open>The cells leave no position of the grid unassigned.\<close>

definition covers_grid :: "table \<Rightarrow> bool" where
  "covers_grid t =
     (\<forall>r \<in> {0..<nat (num_rows t)}. \<forall>c \<in> {0..<nat (num_cols t)}. covered (cells t) r c)"

text \<open>
  A well-formed table: dimensions that are not negative, spans that are not empty, lie in
  bounds and cover the grid.
\<close>

definition well_formed :: "table \<Rightarrow> bool" where
  "well_formed t =
     (0 \<le> num_rows t \<and> 0 \<le> num_cols t \<and> spans_nonempty (cells t) \<and>
      spans_in_bounds t \<and> covers_grid t)"

text \<open>An integer subscript that numpy accepts on an axis of size \<open>n\<close>.\<close>

definition index_ok :: "int \<Rightarrow> nat \<Rightarrow> bool" where
  "index_ok i n = (- int n \<le> i \<and> i < int n)"

text \<open>The slot an accepted subscript pair addresses in an array of shape \<open>(h, w)\<close>.\<close>

definition wrap :: "int \<Rightarrow> nat \<Rightarrow> nat" where
  "wrap i n = (if i < 0 then nat (i + int n) else nat i)"

definition grid_pos :: "nat \<Rightarrow> nat \<Rightarrow> int \<times> int \<Rightarrow> nat \<times> nat" where
  "grid_pos h w p = (wrap (fst p) h, wrap (snd p) w)"

text \<open>One write \<open>((r, c), v)\<close> to the store of an array of shape \<open>(h, w)\<close>.\<close>

definition store_put ::
  "nat \<Rightarrow> nat \<Rightarrow> (nat \<times> nat \<Rightarrow> string option) \<Rightarrow> (int \<times> int) \<times> string
     \<Rightarrow> (nat \<times> nat \<Rightarrow> string option)" where
  "store_put h w D x = D(grid_pos h w (fst x) \<mapsto> snd x)"

text \<open>
  The fill policy in the words of the specification, as the list of writes of a cell.
  A header cell inside the header prefix: its content into every column of \<open>cols\<close> at
  row \<open>rows[0]\<close>, then the empty string into every column of \<open>cols\<close> at every row of
  \<open>rows[1:]\<close>.
\<close>

definition spec_header_writes :: "cell \<Rightarrow> ((int \<times> int) \<times> string) list" where
  "spec_header_writes cell =
     map (\<lambda>c. ((hd (rows cell), c), content cell)) (cols cell) @
     concat (map (\<lambda>r. map (\<lambda>c. ((r, c), [])) (cols cell)) (tl (rows cell)))"

text \<open>
  Every other cell: its content at \<open>(rows[0], cols[0])\<close>, the empty string at
  \<open>(rows[0], c)\<close> for \<open>c\<close> in \<open>cols[1:]\<close>, and the empty string at every position of
  \<open>rows[1:] \<times> cols\<close>.
\<close>

definition spec_data_writes :: "cell \<Rightarrow> ((int \<times> int) \<times> string) list" where
  "spec_data_writes cell =
     ((hd (rows cell), hd (cols cell)), content cell) #
     map (\<lambda>c. ((hd (rows cell), c), [])) (tl (cols cell)) @
     concat (map (\<lambda>r. map (\<lambda>c. ((r, c), [])) (cols cell)) (tl (rows cell)))"

definition spec_cell_writes :: "int \<Rightarrow> cell \<Rightarrow> ((int \<times> int) \<times> string) list" where
  "spec_cell_writes m cell =
     (if is_header cell \<and> hd (rows cell) \<le> m then spec_header_writes cell
      else spec_data_writes cell)"

text \<open>A write at an in-bounds position; a later write to a position replaces an earlier one.\<close>

definition spec_put ::
  "(nat \<times> nat \<Rightarrow> string option) \<Rightarrow> (int \<times> int) \<times> string \<Rightarrow> (nat \<times> nat \<Rightarrow> string option)" where
  "spec_put D x = D((nat (fst (fst x)), nat (snd (fst x))) \<mapsto> snd x)"

text \<open>The grid of the specification: the writes of all cells, in input order, on the unset grid.\<close>

definition spec_grid :: "table \<Rightarrow> ndarray" where
  "spec_grid t =
     \<lparr>nd_rows = nat (num_rows t), nd_cols = nat (num_cols t),
      nd_data = foldl spec_put (\<lambda>p. None)
        (concat (map (spec_cell_writes (max_header_prefix_row (cells t))) (cells t)))\<rparr>"



text \<open>
  What the loop body needs of a cell to run through on a grid of shape \<open>(h, w)\<close>:
  a first row; a first column unless the cell is a header cell inside the prefix; and
  every subscript it reaches accepted by numpy.
\<close>

definition cell_valid :: "int \<Rightarrow> nat \<Rightarrow> nat \<Rightarrow> cell \<Rightarrow> bool" where
  "cell_valid m h w cell =
     (rows cell \<noteq> [] \<and>
      (cols cell = [] \<longrightarrow> is_header cell \<and> hd (rows cell) \<le> m) \<and>
      (\<forall>c \<in> set (cols cell). index_ok c w) \<and>
      (cols cell \<noteq> [] \<longrightarrow> (\<forall>r \<in> set (rows cell). index_ok r h)))"

text \<open>
  Deduplication in the words of the specification: a value is kept the first time it is
  seen, and every later value equal to one already kept is dropped.
\<close>

fun spec_dedup :: "'a list \<Rightarrow> 'a list" where
  "spec_dedup [] = []"
| "spec_dedup (x # xs) = x # spec_dedup (filter (\<lambda>y. y \<noteq> x) xs)"

text \<open>
  The label of column \<open>c\<close> in the words of the specification: rows \<open>0..m\<close> of the column
  read top to bottom, the non-empty values kept, deduplicated, joined with \<open>" | "\<close>.
\<close>

definition spec_label :: "ndarray \<Rightarrow> int \<Rightarrow> nat \<Rightarrow> string" where
  "spec_label g m c =
     join '' | ''
       (spec_dedup (filter (\<lambda>s. s \<noteq> [])
          (map (\<lambda>r. the (nd_data g (r, c))) [0..<min (nat (m + 1)) (nd_rows g)])))"

text \<open>Row \<open>r\<close> of a grid, as the list of its values.\<close>

definition grid_row :: "ndarray \<Rightarrow> nat \<Rightarrow> string option list" where
  "grid_row g r = map (\<lambda>c. nd_data g (r, c)) [0..<nd_cols g]"

text \<open>No position of rows \<open>0..m\<close> of the grid holds the unset marker.\<close>

definition header_region_set :: "ndarray \<Rightarrow> int \<Rightarrow> bool" where
  "header_region_set g m =
     (\<forall>r \<in> {0..<min (nat (m + 1)) (nd_rows g)}. \<forall>c \<in> {0..<nd_cols g}. nd_data g (r, c) \<noteq> None)"

text \<open>Every position of rows \<open>0..max_header_prefix_row\<close> of the grid lies in some span.\<close>

definition header_region_covered :: "table \<Rightarrow> bool" where
  "header_region_covered t =
     (\<forall>r \<in> {0..<min (nat (max_header_prefix_row (cells t) + 1)) (nat (num_rows t))}.
        \<forall>c \<in> {0..<nat (num_cols t)}. covered (cells t) r c)"

text \<open>
  The second component \<open>r\<close> of the pair returned for element \<open>e\<close>: the data frame of the
  table for an element of type \<open>table\<close> whose table is not null, \<open>None\<close> for any other.
\<close>

definition frame_matches :: "'a element_scheme \<Rightarrow> dataframe option \<Rightarrow> bool" where
  "frame_matches e r =
     (if etype e = ''table'' \<and> etable e \<noteq> None
      then r \<noteq> None \<and> table_to_dataframe (the (etable e)) = Inr (the r)
      else r = None)"

text \<open>Every table of the elements is reconstructed without an exception.\<close>

definition tables_reconstruct :: "'a element_scheme list \<Rightarrow> bool" where
  "tables_reconstruct es =
     (\<forall>e \<in> set es. etype e = ''table'' \<and> etable e \<noteq> None \<longrightarrow>
        (case table_to_dataframe (the (etable e)) of Inl err \<Rightarrow> False | Inr df \<Rightarrow> True))"

text \<open>No cell of the list is flagged as a header.\<close>

definition no_header_cells :: "cell list \<Rightarrow> bool" where
  "no_header_cells cs = (\<forall>cell \<in> set cs. \<not> is_header cell)"

text \<open>No cell names a row twice or a column twice.\<close>

definition spans_distinct :: "cell list \<Rightarrow> bool" where
  "spans_distinct cs = (\<forall>cell \<in> set cs. distinct (rows cell) \<and> distinct (cols cell))"

text \<open>No index of any cell is negative.\<close>

definition indices_nonneg :: "cell list \<Rightarrow> bool" where
  "indices_nonneg cs =
     (\<forall>cell \<in> set cs. (\<forall>r \<in> set (rows cell). 0 \<le> r) \<and> (\<forall>c \<in> set (cols cell). 0 \<le> c))"

text \<open>The spans of the cells of the list do not overlap each other.\<close>

fun pairwise_disjoint :: "cell list \<Rightarrow> bool" where
  "pairwise_disjoint [] = True"
| "pairwise_disjoint (cell # cs) =
     ((\<forall>other \<in> set cs. span cell \<inter> span other = {}) \<and> pairwise_disjoint cs)"

text \<open>
  The grid of the no-header round trip in the words of the specification: a position
  holds the content of the cell that covers it if it is the top-left position
  \<open>(rows[0], cols[0])\<close> of that cell, the empty string if it is any other position of its
  span, and stays unset if no cell covers it. Where several cells cover a position the
  last one in scan order decides.
\<close>

definition spec_topleft_grid :: "table \<Rightarrow> ndarray" where
  "spec_topleft_grid t =
     \<lparr>nd_rows = nat (num_rows t), nd_cols = nat (num_cols t),
      nd_data = (\<lambda>(r, c).
        case find (\<lambda>cell. (int r, int c) \<in> span cell) (rev (cells t)) of
          None \<Rightarrow> None
        | Some cell \<Rightarrow>
            Some (if (int r, int c) = (hd (rows cell), hd (cols cell)) then content cell
                  else []))\<rparr>"

subsection \<open>Example tables\<close>

text \<open>
  Five rows in one column: header cells on rows 0--2 and on row 4, a data cell on row 3.
  The header-row set is \<open>[0, 1, 2, 4]\<close>.
\<close>

definition ex_gap_cells :: "cell list" where
  "ex_gap_cells =
     [\<lparr>rows = [0, 1, 2], cols = [0], content = ''h'', is_header = True\<rparr>,
      \<lparr>rows = [3], cols = [0], content = ''d'', is_header = False\<rparr>,
      \<lparr>rows = [4], cols = [0], content = ''k'', is_header = True\<rparr>]"

text \<open>
  Three rows, two columns: one header cell over rows 0--1 and both columns, two data cells
  on row 2.
\<close>

definition ex_name_table :: table where
  "ex_name_table =
     \<lparr>num_rows = 3, num_cols = 2,
      cells =
        [\<lparr>rows = [0, 1], cols = [0, 1], content = ''Name'', is_header = True\<rparr>,
         \<lparr>rows = [2], cols = [0], content = ''Alice'', is_header = False\<rparr>,
         \<lparr>rows = [2], cols = [1], content = ''30'', is_header = False\<rparr>]\<rparr>"

text \<open>A two-row header: \<open>Region\<close> twice in column 0, \<open>2023\<close> over \<open>Q1\<close> in column 1.\<close>

definition ex_region_table :: table where
  "ex_region_table =
     \<lparr>num_rows = 3, num_cols = 2,
      cells =
        [\<lparr>rows = [0], cols = [0], content = ''Region'', is_header = True\<rparr>,
         \<lparr>rows = [1], cols = [0], content = ''Region'', is_header = True\<rparr>,
         \<lparr>rows = [0], cols = [1], content = ''2023'', is_header = True\<rparr>,
         \<lparr>rows = [1], cols = [1], content = ''Q1'', is_header = True\<rparr>,
         \<lparr>rows = [2], cols = [0], content = ''East'', is_header = False\<rparr>,
         \<lparr>rows = [2], cols = [1], content = ''7'', is_header = False\<rparr>]\<rparr>"

text \<open>Two rows, two columns, and a single header cell at \<open>(0, 0)\<close>: position \<open>(0, 1)\<close> of
  the header row is left unassigned.\<close>

definition ex_header_gap_table :: table where
  "ex_header_gap_table =
     \<lparr>num_rows = 2, num_cols = 2,
      cells = [\<lparr>rows = [0], cols = [0], content = ''A'', is_header = True\<rparr>]\<rparr>"

text \<open>Two rows, two columns, a full header row, and one data cell: position \<open>(1, 1)\<close> is
  left unassigned.\<close>

definition ex_data_gap_table :: table where
  "ex_data_gap_table =
     \<lparr>num_rows = 2, num_cols = 2,
      cells =
        [\<lparr>rows = [0], cols = [0], content = ''A'', is_header = True\<rparr>,
         \<lparr>rows = [0], cols = [1], content = ''B'', is_header = True\<rparr>,
         \<lparr>rows = [1], cols = [0], content = ''x'', is_header = False\<rparr>]\<rparr>"


text \<open>Three rows, one column, and a data cell on row 5.\<close>

definition ex_oob_table :: table where
  "ex_oob_table =
     \<lparr>num_rows = 3, num_cols = 1,
      cells = [\<lparr>rows = [5], cols = [0], content = ''x'', is_header = False\<rparr>]\<rparr>"

text \<open>One row, one column: a header cell, and a second header cell whose \<open>cols\<close> is empty.\<close>

definition ex_empty_cols_table :: table where
  "ex_empty_cols_table =
     \<lparr>num_rows = 1, num_cols = 1,
      cells =
        [\<lparr>rows = [0], cols = [0], content = ''H'', is_header = True\<rparr>,
         \<lparr>rows = [0], cols = [], content = ''X'', is_header = True\<rparr>]\<rparr>"

text \<open>One row, one column: a data cell, and a second data cell whose \<open>rows\<close> is empty.\<close>

definition ex_empty_rows_table :: table where
  "ex_empty_rows_table =
     \<lparr>num_rows = 1, num_cols = 1,
      cells =
        [\<lparr>rows = [0], cols = [0], content = ''d'', is_header = False\<rparr>,
         \<lparr>rows = [], cols = [0], content = ''X'', is_header = False\<rparr>]\<rparr>"

text \<open>Responses: a text element, table elements, and a table element whose table is null.\<close>

definition ex_text_element :: element where
  "ex_text_element = \<lparr>etype = ''Text'', etable = None\<rparr>"

definition ex_null_table_element :: element where
  "ex_null_table_element = \<lparr>etype = ''table'', etable = None\<rparr>"

definition ex_good_element :: element where
  "ex_good_element = \<lparr>etype = ''table'', etable = Some ex_name_table\<rparr>"

definition ex_bad_element :: element where
  "ex_bad_element = \<lparr>etype = ''table'', etable = Some ex_oob_table\<rparr>"

text \<open>Two rows, two columns, no header cell; the third cell spans both columns of row 1.\<close>

definition ex_plain_table :: table where
  "ex_plain_table =
     \<lparr>num_rows = 2, num_cols = 2,
      cells =
        [\<lparr>rows = [0], cols = [0], content = ''a'', is_header = False\<rparr>,
         \<lparr>rows = [0], cols = [1], content = ''b'', is_header = False\<rparr>,
         \<lparr>rows = [1], cols = [0, 1], content = ''c'', is_header = False\<rparr>]\<rparr>"

section \<open>Properties of the model\<close>

subsection \<open>The header prefix\<close>

lemma header_rows_sorted_distinct:
  "sorted (header_rows cs) \<and> distinct (header_rows cs)"
  by (simp add: header_rows_def)

lemma header_rows_set:
  "set (header_rows cs) = (\<Union>c \<in> {c \<in> set cs. is_header c}. set (rows c))"
  by (auto simp: header_rows_def)

lemma scan_range_upt:
  "scan_range H [k..<n] i =
     (if \<exists>j. k \<le> j \<and> j < n \<and> H ! j \<noteq> int j
      then int (LEAST j. k \<le> j \<and> j < n \<and> H ! j \<noteq> int j)
      else if k < n then int n - 1 else i)"
proof (induction "n - k" arbitrary: k i)
  case 0
  then show ?case by auto
next
  case (Suc d)
  then have kn: "k < n" and d: "d = n - Suc k" by auto
  have unfold: "[k..<n] = k # [Suc k..<n]" using kn by (simp add: upt_rec)
  show ?case
  proof (cases "H ! k \<noteq> int k")
    case True
    then have "(LEAST j. k \<le> j \<and> j < n \<and> H ! j \<noteq> int j) = k"
      using kn by (intro Least_equality) auto
    moreover have "\<exists>j. k \<le> j \<and> j < n \<and> H ! j \<noteq> int j" using True kn by auto
    ultimately show ?thesis using True unfold by simp
  next
    case False
    have same: "(k \<le> j \<and> j < n \<and> H ! j \<noteq> int j) = (Suc k \<le> j \<and> j < n \<and> H ! j \<noteq> int j)" for j
      using False by (cases "j = k") auto
    have "scan_range H [k..<n] i = scan_range H [Suc k..<n] (int k)"
      using False unfold by simp
    also have "\<dots> = (if \<exists>j. Suc k \<le> j \<and> j < n \<and> H ! j \<noteq> int j
      then int (LEAST j. Suc k \<le> j \<and> j < n \<and> H ! j \<noteq> int j)
      else if Suc k < n then int n - 1 else int k)"
      using Suc.hyps(1)[OF d] .
    finally show ?thesis using kn by (auto simp: same)
  qed
qed

lemma header_prefix_spec:
  "header_prefix H =
     (if \<exists>i<length H. H ! i \<noteq> int i
      then int (LEAST i. i < length H \<and> H ! i \<noteq> int i)
      else int (length H) - 1)"
  unfolding header_prefix_def scan_range_upt by auto

lemma header_prefix_ge: "- 1 \<le> header_prefix H"
  unfolding header_prefix_spec by auto

lemma header_prefix_le: "header_prefix H \<le> int (length H)"
proof (cases "\<exists>i<length H. H ! i \<noteq> int i")
  case True
  then obtain i where i: "i < length H \<and> H ! i \<noteq> int i" by blast
  then have "(LEAST i. i < length H \<and> H ! i \<noteq> int i) \<le> i" by (rule Least_le)
  then show ?thesis using True i unfolding header_prefix_spec by simp
next
  case False
  then show ?thesis unfolding header_prefix_spec by auto
qed

subsection \<open>The loops of the grid assembly\<close>

lemma norm_index_ok: "index_ok i n \<Longrightarrow> norm_index i n = Some (wrap i n)"
  by (auto simp: index_ok_def norm_index_def wrap_def)

lemma norm_index_bad: "\<not> index_ok i n \<Longrightarrow> norm_index i n = None"
  by (auto simp: index_ok_def norm_index_def)

lemma setitem_eq:
  "setitem g r c v =
     (if index_ok r (nd_rows g) \<and> index_ok c (nd_cols g)
      then Inr (g\<lparr>nd_data := store_put (nd_rows g) (nd_cols g) (nd_data g) ((r, c), v)\<rparr>)
      else Inl IndexError)"
  by (cases "index_ok r (nd_rows g)"; cases "index_ok c (nd_cols g)")
     (simp_all add: setitem_def norm_index_ok norm_index_bad store_put_def grid_pos_def)

lemma set_row_eq:
  "set_row r v cs g =
     (if (\<forall>c \<in> set cs. index_ok c (nd_cols g)) \<and> (cs \<noteq> [] \<longrightarrow> index_ok r (nd_rows g))
      then Inr (g\<lparr>nd_data := foldl (store_put (nd_rows g) (nd_cols g)) (nd_data g)
                   (map (\<lambda>c. ((r, c), v)) cs)\<rparr>)
      else Inl IndexError)"
proof (induction cs arbitrary: g)
  case Nil
  show ?case by simp
next
  case (Cons col cs)
  show ?case
    by (auto simp: setitem_eq Cons.IH)
qed

lemma blank_rows_eq:
  "blank_rows rs cs g =
     (if (rs \<noteq> [] \<longrightarrow> (\<forall>c \<in> set cs. index_ok c (nd_cols g))) \<and>
         (cs \<noteq> [] \<longrightarrow> (\<forall>r \<in> set rs. index_ok r (nd_rows g)))
      then Inr (g\<lparr>nd_data := foldl (store_put (nd_rows g) (nd_cols g)) (nd_data g)
                   (concat (map (\<lambda>r. map (\<lambda>c. ((r, c), [])) cs) rs))\<rparr>)
      else Inl IndexError)"
proof (induction rs arbitrary: g)
  case Nil
  show ?case by simp
next
  case (Cons row rs)
  show ?case
    by (auto simp: set_row_eq Cons.IH)
qed


lemma fill_data_eq:
  "fill_data cell g =
     (if rows cell \<noteq> [] \<and> cols cell \<noteq> [] \<and>
         (\<forall>c \<in> set (cols cell). index_ok c (nd_cols g)) \<and>
         (\<forall>r \<in> set (rows cell). index_ok r (nd_rows g))
      then Inr (g\<lparr>nd_data := foldl (store_put (nd_rows g) (nd_cols g)) (nd_data g)
                   (spec_data_writes cell)\<rparr>)
      else Inl IndexError)"
proof (cases "rows cell")
  case Nil
  then show ?thesis by (simp add: fill_data_def)
next
  case rs: (Cons r0 rs)
  show ?thesis
  proof (cases "cols cell")
    case Nil
    then show ?thesis using rs by (simp add: fill_data_def)
  next
    case (Cons c0 cs)
    then show ?thesis using rs
      by (auto simp: fill_data_def setitem_eq set_row_eq blank_rows_eq spec_data_writes_def)
  qed
qed

lemma fill_cell_eq:
  "fill_cell m cell g =
     (if cell_valid m (nd_rows g) (nd_cols g) cell
      then Inr (g\<lparr>nd_data := foldl (store_put (nd_rows g) (nd_cols g)) (nd_data g)
                   (spec_cell_writes m cell)\<rparr>)
      else Inl IndexError)"
proof (cases "is_header cell \<and> rows cell \<noteq> [] \<and> hd (rows cell) \<le> m")
  case True
  then obtain r0 rs where rs: "rows cell = r0 # rs" by (cases "rows cell") auto
  with True show ?thesis
    by (auto simp: fill_cell_def set_row_eq blank_rows_eq spec_cell_writes_def
        spec_header_writes_def cell_valid_def)
next
  case False
  then have "fill_cell m cell g = fill_data cell g"
    by (cases "rows cell") (auto simp: fill_cell_def fill_data_def)
  moreover have "cell_valid m (nd_rows g) (nd_cols g) cell =
      (rows cell \<noteq> [] \<and> cols cell \<noteq> [] \<and>
         (\<forall>c \<in> set (cols cell). index_ok c (nd_cols g)) \<and>
         (\<forall>r \<in> set (rows cell). index_ok r (nd_rows g)))"
    using False by (auto simp: cell_valid_def)
  moreover have "rows cell \<noteq> [] \<Longrightarrow> spec_cell_writes m cell = spec_data_writes cell"
    using False by (auto simp: spec_cell_writes_def)
  ultimately show ?thesis by (auto simp: fill_data_eq)
qed

lemma fill_cells_eq:
  "fill_cells m cs g =
     (if \<forall>cell \<in> set cs. cell_valid m (nd_rows g) (nd_cols g) cell
      then Inr (g\<lparr>nd_data := foldl (store_put (nd_rows g) (nd_cols g)) (nd_data g)
                   (concat (map (spec_cell_writes m) cs))\<rparr>)
      else Inl IndexError)"
  by (induction cs arbitrary: g) (auto simp: fill_cell_eq)

lemma build_grid_eq:
  "build_grid t =
     (if num_rows t < 0 \<or> num_cols t < 0 then Inl ValueError
      else if \<forall>cell \<in> set (cells t).
                cell_valid (max_header_prefix_row (cells t)) (nat (num_rows t)) (nat (num_cols t)) cell
      then Inr \<lparr>nd_rows = nat (num_rows t), nd_cols = nat (num_cols t),
                nd_data = foldl (store_put (nat (num_rows t)) (nat (num_cols t))) (\<lambda>p. None)
                   (concat (map (spec_cell_writes (max_header_prefix_row (cells t))) (cells t)))\<rparr>
      else Inl IndexError)"
  by (simp add: build_grid_def np_empty_def fill_cells_eq)

subsection \<open>The store after a sequence of writes\<close>

lemma store_put_same: "grid_pos h w (fst x) = p \<Longrightarrow> store_put h w D x p = Some (snd x)"
  by (simp add: store_put_def)

lemma store_put_diff: "grid_pos h w (fst x) \<noteq> p \<Longrightarrow> store_put h w D x p = D p"
  by (simp add: store_put_def)

lemma store_put_map_add: "store_put h w (D ++ E) x = D ++ store_put h w E x"
  by (simp add: store_put_def)

lemma foldl_store_put_other:
  "p \<notin> grid_pos h w ` fst ` set ws \<Longrightarrow> foldl (store_put h w) D ws p = D p"
  by (induction ws arbitrary: D) (auto simp: store_put_def)

lemma foldl_store_put_const:
  "p \<in> grid_pos h w ` fst ` set ws \<Longrightarrow> \<forall>x \<in> set ws. grid_pos h w (fst x) = p \<longrightarrow> snd x = v \<Longrightarrow>
   foldl (store_put h w) D ws p = Some v"
proof (induction ws arbitrary: D rule: rev_induct)
  case Nil
  then show ?case by simp
next
  case (snoc x ws)
  show ?case
  proof (cases "grid_pos h w (fst x) = p")
    case True
    then show ?thesis using snoc.prems by (simp add: store_put_same)
  next
    case False
    then have "p \<in> grid_pos h w ` fst ` set ws" using snoc.prems(1) by auto
    then have "foldl (store_put h w) D ws p = Some v" using snoc.prems(2) by (intro snoc.IH) auto
    then show ?thesis using False by (simp add: store_put_diff)
  qed
qed

lemma foldl_store_put_dom:
  "dom (foldl (store_put h w) D ws) = dom D \<union> grid_pos h w ` fst ` set ws"
  by (induction ws arbitrary: D) (auto simp: store_put_def)

lemma foldl_store_put_value:
  "foldl (store_put h w) D ws p = Some v \<Longrightarrow>
   D p = Some v \<or> (\<exists>x \<in> set ws. grid_pos h w (fst x) = p \<and> snd x = v)"
proof (induction ws arbitrary: D)
  case Nil
  then show ?case by simp
next
  case (Cons x ws)
  from Cons.IH [of "store_put h w D x"] Cons.prems
  show ?case by (auto simp: store_put_def split: if_splits)
qed

lemma foldl_store_put_map_add:
  "foldl (store_put h w) D ws = D ++ foldl (store_put h w) (\<lambda>p. None) ws"
proof (induction ws rule: rev_induct)
  case Nil
  show ?case by simp
next
  case (snoc x ws)
  then show ?case by (simp add: store_put_map_add)
qed

lemma spec_header_writes_map_fst:
  "map fst (spec_header_writes cell) =
     map (\<lambda>c. (hd (rows cell), c)) (cols cell) @
     concat (map (\<lambda>r. map (\<lambda>c. (r, c)) (cols cell)) (tl (rows cell)))"
  by (simp add: spec_header_writes_def map_concat comp_def)

lemma spec_data_writes_map_fst:
  "map fst (spec_data_writes cell) =
     (hd (rows cell), hd (cols cell)) # map (\<lambda>c. (hd (rows cell), c)) (tl (cols cell)) @
     concat (map (\<lambda>r. map (\<lambda>c. (r, c)) (cols cell)) (tl (rows cell)))"
  by (simp add: spec_data_writes_def map_concat comp_def)

lemma spec_header_writes_fst:
  assumes "rows cell \<noteq> []"
  shows "fst ` set (spec_header_writes cell) = span cell"
proof -
  obtain r0 rs where rs: "rows cell = r0 # rs" using assms by (cases "rows cell") auto
  have "fst ` set (spec_header_writes cell) = set (map fst (spec_header_writes cell))" by simp
  also have "\<dots> = span cell"
    unfolding spec_header_writes_map_fst by (auto simp: rs span_def)
  finally show ?thesis .
qed

lemma spec_data_writes_fst:
  assumes "rows cell \<noteq> []" "cols cell \<noteq> []"
  shows "fst ` set (spec_data_writes cell) = span cell"
proof -
  obtain r0 rs where rs: "rows cell = r0 # rs" using assms by (cases "rows cell") auto
  obtain c0 cs where cs: "cols cell = c0 # cs" using assms by (cases "cols cell") auto
  have "fst ` set (spec_data_writes cell) = set (map fst (spec_data_writes cell))" by simp
  also have "\<dots> = span cell"
    unfolding spec_data_writes_map_fst by (auto simp: rs cs span_def)
  finally show ?thesis .
qed

lemma spec_cell_writes_fst:
  "cell_valid m h w cell \<Longrightarrow> fst ` set (spec_cell_writes m cell) = span cell"
  by (cases "cols cell = []")
     (simp_all add: spec_cell_writes_def cell_valid_def spec_header_writes_fst
        spec_data_writes_fst del: image_set)

lemma spec_cell_writes_snd:
  "x \<in> set (spec_cell_writes m cell) \<Longrightarrow> snd x = content cell \<or> snd x = []"
  by (auto simp: spec_cell_writes_def spec_header_writes_def spec_data_writes_def split: if_splits)

lemma wrap_nonneg: "0 \<le> i \<Longrightarrow> wrap i n = nat i"
  by (simp add: wrap_def)

lemma store_put_spec_put:
  "0 \<le> fst (fst x) \<Longrightarrow> 0 \<le> snd (fst x) \<Longrightarrow> store_put h w D x = spec_put D x"
  by (simp add: store_put_def spec_put_def grid_pos_def wrap_nonneg)

subsection \<open>Header flattening\<close>

lemma fromkeys_set: "set (fromkeys acc xs) = set acc \<union> set xs"
  by (induction xs arbitrary: acc) auto

lemma fromkeys_spec_dedup:
  "fromkeys acc xs = acc @ spec_dedup (filter (\<lambda>y. y \<notin> set acc) xs)"
proof (induction xs arbitrary: acc)
  case Nil
  show ?case by simp
next
  case (Cons x xs)
  have "filter (\<lambda>y. y \<noteq> x) (filter (\<lambda>y. y \<notin> set acc) xs) = filter (\<lambda>y. y \<notin> set (acc @ [x])) xs"
    by (auto intro: filter_cong)
  then show ?case using Cons.IH [of acc] Cons.IH [of "acc @ [x]"] by simp
qed

lemma fromkeys_map_inj:
  "inj f \<Longrightarrow> fromkeys (map f acc) (map f xs) = map f (fromkeys acc xs)"
proof (induction xs arbitrary: acc)
  case Nil
  show ?case by simp
next
  case (Cons x xs)
  from Cons.IH [OF Cons.prems, of acc] Cons.IH [OF Cons.prems, of "acc @ [x]"] Cons.prems
  show ?case by (simp add: inj_image_mem_iff)
qed

lemma flatten_column_unset: "None \<in> set npcol \<Longrightarrow> flatten_column npcol = Inl TypeError"
  by (simp add: flatten_column_def str_join_def fromkeys_set)

lemma flatten_column_strings:
  "flatten_column (map Some ss) = Inr (join '' | '' (spec_dedup (filter (\<lambda>s. s \<noteq> []) ss)))"
proof -
  let ?ys = "filter (\<lambda>s. s \<noteq> []) ss"
  have f: "filter (\<lambda>c. c \<noteq> Some []) (map Some ss) = map Some ?ys"
    by (induction ss) auto
  have "fromkeys [] (map Some ?ys) = map Some (fromkeys [] ?ys)"
    using fromkeys_map_inj [of Some "[]" ?ys] by simp
  also have "\<dots> = map Some (spec_dedup ?ys)"
    using fromkeys_spec_dedup [of "[]" ?ys] by simp
  finally have k: "fromkeys [] (map Some ?ys) = map Some (spec_dedup ?ys)" .
  have "flatten_column (map Some ss) = str_join '' | '' (map Some (spec_dedup ?ys))"
    unfolding flatten_column_def f k ..
  also have "\<dots> = Inr (join '' | '' (spec_dedup ?ys))"
    by (auto simp: str_join_def comp_def)
  finally show ?thesis .
qed

lemma map_Some_the: "None \<notin> set xs \<Longrightarrow> map Some (map the xs) = xs"
  by (induction xs) auto

lemma flatten_column_eq:
  "flatten_column npcol =
     (if None \<in> set npcol then Inl TypeError
      else Inr (join '' | '' (spec_dedup (filter (\<lambda>s. s \<noteq> []) (map the npcol)))))"
proof (cases "None \<in> set npcol")
  case True
  then show ?thesis by (simp add: flatten_column_unset)
next
  case False
  then have "map Some (map the npcol) = npcol" by (rule map_Some_the)
  then have "flatten_column npcol = flatten_column (map Some (map the npcol))"
    by (rule arg_cong [OF sym])
  then show ?thesis using False by (simp only: flatten_column_strings if_False)
qed

lemma flatten_columns_eq:
  "flatten_columns npcols =
     (if \<exists>npcol \<in> set npcols. None \<in> set npcol then Inl TypeError
      else Inr (map (\<lambda>npcol. join '' | '' (spec_dedup (filter (\<lambda>s. s \<noteq> []) (map the npcol)))) npcols))"
  by (induction npcols) (auto simp: flatten_column_eq)

lemma bex_map_iff: "(\<exists>y \<in> set (map F xs). P y) = (\<exists>x \<in> set xs. P (F x))"
  by (induction xs) auto

lemma None_in_map_iff: "(None \<in> set (map F xs)) = (\<exists>x \<in> set xs. F x = None)"
  by (induction xs) auto

lemma clip_bound_nonneg: "0 \<le> s \<Longrightarrow> clip_bound s n = min (nat s) n"
  by (simp add: clip_bound_def)

lemma nd_iter_header:
  "nd_iter (transpose_nd (rows_upto g s)) =
     map (\<lambda>c. map (\<lambda>r. nd_data g (r, c)) [0..<clip_bound s (nd_rows g)]) [0..<nd_cols g]"
  by (simp add: nd_iter_def transpose_nd_def rows_upto_def)

lemma nd_iter_rows_from:
  "nd_iter (rows_from g s) = map (grid_row g) [clip_bound s (nd_rows g)..<nd_rows g]"
proof -
  let ?k = "clip_bound s (nd_rows g)"
  have k: "?k \<le> nd_rows g" by (auto simp: clip_bound_def)
  have "[?k..<nd_rows g] = map (\<lambda>r. r + ?k) [0..<nd_rows g - ?k]"
    using k by (simp add: map_add_upt)
  then show ?thesis
    by (simp add: nd_iter_def rows_from_def Let_def grid_row_def comp_def)
qed

lemma grid_to_dataframe_eq:
  assumes "- 1 \<le> m"
  shows "grid_to_dataframe g m =
     (if header_region_set g m
      then Inr \<lparr>df_columns = (if 0 \<le> m then Some (map (spec_label g m) [0..<nd_cols g]) else None),
               df_values = map (grid_row g) [min (nat (m + 1)) (nd_rows g)..<nd_rows g]\<rparr>
      else Inl TypeError)"
proof -
  have cb: "clip_bound (m + 1) (nd_rows g) = min (nat (m + 1)) (nd_rows g)"
    using assms by (simp add: clip_bound_nonneg)
  have un: "(\<exists>npcol \<in> set (nd_iter (transpose_nd (rows_upto g (m + 1)))). None \<in> set npcol)
      = (\<not> header_region_set g m)"
    unfolding nd_iter_header cb header_region_set_def
    by (simp only: bex_map_iff None_in_map_iff set_upt) auto
  have lab: "map (\<lambda>npcol. join '' | '' (spec_dedup (filter (\<lambda>s. s \<noteq> []) (map the npcol))))
        (nd_iter (transpose_nd (rows_upto g (m + 1)))) = map (spec_label g m) [0..<nd_cols g]"
    unfolding nd_iter_header cb by (simp add: spec_label_def comp_def)
  show ?thesis
    unfolding grid_to_dataframe_def flatten_columns_eq un lab nd_iter_rows_from cb
    by simp
qed

subsection \<open>The grid of a table with spans in bounds\<close>

lemma in_bounds_cell_valid:
  assumes "spans_in_bounds t" "spans_nonempty (cells t)" "cell \<in> set (cells t)"
  shows "cell_valid m (nat (num_rows t)) (nat (num_cols t)) cell"
proof -
  from assms have r: "\<forall>r \<in> set (rows cell). 0 \<le> r \<and> r < num_rows t"
    and c: "\<forall>c \<in> set (cols cell). 0 \<le> c \<and> c < num_cols t"
    and ne: "rows cell \<noteq> []" "cols cell \<noteq> []"
    by (simp_all add: spans_in_bounds_def spans_nonempty_def)
  have "index_ok i (nat n)" if "0 \<le> i \<and> i < n" for i n
    using that by (simp add: index_ok_def)
  then show ?thesis using r c ne by (simp add: cell_valid_def)
qed

lemma in_bounds_write_pos:
  assumes "spans_in_bounds t" "spans_nonempty (cells t)"
    and "x \<in> set (concat (map (spec_cell_writes m) (cells t)))"
  shows "\<exists>cell \<in> set (cells t). x \<in> set (spec_cell_writes m cell) \<and> fst x \<in> span cell \<and>
           0 \<le> fst (fst x) \<and> 0 \<le> snd (fst x)"
proof -
  from assms(3) obtain cell where cell: "cell \<in> set (cells t)" "x \<in> set (spec_cell_writes m cell)"
    by auto
  have "fst ` set (spec_cell_writes m cell) = span cell"
    using in_bounds_cell_valid [OF assms(1,2) cell(1)] by (rule spec_cell_writes_fst)
  then have sp: "fst x \<in> span cell" using cell(2) by blast
  then have "0 \<le> fst (fst x) \<and> 0 \<le> snd (fst x)"
    using assms(1) cell(1) by (cases x) (auto simp: spans_in_bounds_def span_def)
  with cell sp show ?thesis by blast
qed

lemma build_grid_in_bounds:
  assumes "0 \<le> num_rows t" "0 \<le> num_cols t" "spans_nonempty (cells t)" "spans_in_bounds t"
  shows "build_grid t = Inr (spec_grid t)"
proof -
  let ?m = "max_header_prefix_row (cells t)"
  let ?ws = "concat (map (spec_cell_writes ?m) (cells t))"
  have "foldl (store_put (nat (num_rows t)) (nat (num_cols t))) (\<lambda>p. None) ?ws
      = foldl spec_put (\<lambda>p. None) ?ws"
  proof (rule foldl_cong [OF refl refl])
    fix D x
    assume "x \<in> set ?ws"
    from in_bounds_write_pos [OF assms(4,3) this]
    show "store_put (nat (num_rows t)) (nat (num_cols t)) D x = spec_put D x"
      by (auto intro: store_put_spec_put)
  qed
  then show ?thesis
    using assms in_bounds_cell_valid [OF assms(4,3)]
    by (simp add: build_grid_eq spec_grid_def)
qed

lemma spec_grid_store:
  "nd_data (spec_grid t) =
     foldl spec_put (\<lambda>p. None)
       (concat (map (spec_cell_writes (max_header_prefix_row (cells t))) (cells t)))"
  by (simp add: spec_grid_def)

lemma spec_put_value:
  "foldl spec_put D ws p = Some v \<Longrightarrow>
   D p = Some v \<or> (\<exists>x \<in> set ws. (nat (fst (fst x)), nat (snd (fst x))) = p \<and> snd x = v)"
proof (induction ws arbitrary: D)
  case Nil
  then show ?case by simp
next
  case (Cons x ws)
  from Cons.IH [of "spec_put D x"] Cons.prems
  show ?case by (auto simp: spec_put_def split: if_splits)
qed

lemma spec_put_dom:
  "dom (foldl spec_put D ws) = dom D \<union> (\<lambda>x. (nat (fst (fst x)), nat (snd (fst x)))) ` set ws"
  by (induction ws arbitrary: D) (auto simp: spec_put_def)

lemma spec_grid_value:
  assumes "spans_nonempty (cells t)" "spans_in_bounds t"
    and "nd_data (spec_grid t) (r, c) = Some v"
  shows "\<exists>cell \<in> set (cells t). (int r, int c) \<in> span cell \<and> (v = content cell \<or> v = [])"
proof -
  let ?m = "max_header_prefix_row (cells t)"
  from spec_put_value [OF assms(3) [unfolded spec_grid_store]]
  obtain x where x: "x \<in> set (concat (map (spec_cell_writes ?m) (cells t)))"
      "(nat (fst (fst x)), nat (snd (fst x))) = (r, c)" "snd x = v"
    by auto
  from in_bounds_write_pos [OF assms(2,1) x(1)]
  obtain cell where cell: "cell \<in> set (cells t)" "x \<in> set (spec_cell_writes ?m cell)"
      "fst x \<in> span cell" "0 \<le> fst (fst x)" "0 \<le> snd (fst x)"
    by blast
  have "fst x = (int r, int c)" using x(2) cell(4,5) by (cases x) auto
  moreover have "v = content cell \<or> v = []" using spec_cell_writes_snd [OF cell(2)] x(3) by simp
  ultimately show ?thesis using cell(1,3) by auto
qed

lemma spec_grid_write:
  assumes "spans_nonempty (cells t)" "spans_in_bounds t"
    and "nd_data (spec_grid t) (r, c) = Some v"
  shows "\<exists>cell \<in> set (cells t). (int r, int c) \<in> span cell \<and>
           (\<exists>x \<in> set (spec_cell_writes (max_header_prefix_row (cells t)) cell).
              fst x = (int r, int c) \<and> snd x = v) \<and>
           (v = content cell \<or> v = [])"
proof -
  let ?m = "max_header_prefix_row (cells t)"
  from spec_put_value [OF assms(3) [unfolded spec_grid_store]]
  obtain x where x: "x \<in> set (concat (map (spec_cell_writes ?m) (cells t)))"
      "(nat (fst (fst x)), nat (snd (fst x))) = (r, c)" "snd x = v"
    by auto
  from in_bounds_write_pos [OF assms(2,1) x(1)]
  obtain cell where cell: "cell \<in> set (cells t)" "x \<in> set (spec_cell_writes ?m cell)"
      "fst x \<in> span cell" "0 \<le> fst (fst x)" "0 \<le> snd (fst x)"
    by blast
  have p: "fst x = (int r, int c)" using x(2) cell(4,5) by (cases x) auto
  have "v = content cell \<or> v = []" using spec_cell_writes_snd [OF cell(2)] x(3) by simp
  moreover have "\<exists>y \<in> set (spec_cell_writes ?m cell). fst y = (int r, int c) \<and> snd y = v"
    using cell(2) p x(3) by blast
  ultimately show ?thesis using cell(1,3) p by auto
qed

lemma spec_grid_set_iff:
  assumes "spans_nonempty (cells t)" "spans_in_bounds t"
  shows "(nd_data (spec_grid t) (r, c) \<noteq> None) = covered (cells t) r c"
proof
  assume "nd_data (spec_grid t) (r, c) \<noteq> None"
  then obtain v where "nd_data (spec_grid t) (r, c) = Some v" by auto
  from spec_grid_value [OF assms this] show "covered (cells t) r c"
    by (auto simp: covered_def)
next
  let ?m = "max_header_prefix_row (cells t)"
  assume "covered (cells t) r c"
  then obtain cell where cell: "cell \<in> set (cells t)" "(int r, int c) \<in> span cell"
    by (auto simp: covered_def)
  have "fst ` set (spec_cell_writes ?m cell) = span cell"
    using in_bounds_cell_valid [OF assms(2,1) cell(1)] by (rule spec_cell_writes_fst)
  then obtain x where x: "x \<in> set (spec_cell_writes ?m cell)" "fst x = (int r, int c)"
    using cell(2) by (metis imageE)
  then have "x \<in> set (concat (map (spec_cell_writes ?m) (cells t)))" using cell(1) by auto
  then have "(nat (fst (fst x)), nat (snd (fst x)))
      \<in> dom (foldl spec_put (\<lambda>p. None) (concat (map (spec_cell_writes ?m) (cells t))))"
    unfolding spec_put_dom by blast
  then show "nd_data (spec_grid t) (r, c) \<noteq> None"
    using x(2) by (auto simp: spec_grid_store)
qed

subsection \<open>From the grid to the data frame\<close>

lemma max_header_prefix_row_ge: "- 1 \<le> max_header_prefix_row cs"
  by (simp add: max_header_prefix_row_def header_prefix_ge)

lemma table_to_dataframe_grid:
  "build_grid t = Inr g \<Longrightarrow> table_to_dataframe t = grid_to_dataframe g (max_header_prefix_row (cells t))"
  by (simp add: table_to_dataframe_def)

lemma build_grid_shape:
  "build_grid t = Inr g \<Longrightarrow>
   0 \<le> num_rows t \<and> 0 \<le> num_cols t \<and> nd_rows g = nat (num_rows t) \<and> nd_cols g = nat (num_cols t)"
  by (auto simp: build_grid_eq split: if_splits)

lemma upt_min: "[min a h..<h] = [a..<h]"
  by (cases "a \<le> h") (simp_all add: min_def)

lemma table_to_dataframe_eq:
  assumes "build_grid t = Inr g"
  shows "table_to_dataframe t =
     (if header_region_set g (max_header_prefix_row (cells t))
      then Inr \<lparr>df_columns =
                 (if 0 \<le> max_header_prefix_row (cells t)
                  then Some (map (spec_label g (max_header_prefix_row (cells t))) [0..<nat (num_cols t)])
                  else None),
               df_values =
                 map (grid_row g) [nat (max_header_prefix_row (cells t) + 1)..<nat (num_rows t)]\<rparr>
      else Inl TypeError)"
  using build_grid_shape [OF assms]
  by (simp add: table_to_dataframe_grid [OF assms]
      grid_to_dataframe_eq [OF max_header_prefix_row_ge] upt_min)

lemma header_region_set_no_header:
  "m < 0 \<Longrightarrow> header_region_set g m"
  by (simp add: header_region_set_def)

lemma header_region_set_spec_grid:
  assumes "spans_nonempty (cells t)" "spans_in_bounds t"
  shows "header_region_set (spec_grid t) (max_header_prefix_row (cells t)) = header_region_covered t"
proof -
  have "nd_rows (spec_grid t) = nat (num_rows t)" "nd_cols (spec_grid t) = nat (num_cols t)"
    by (simp_all add: spec_grid_def)
  then show ?thesis
    unfolding header_region_set_def header_region_covered_def
    by (simp only: spec_grid_set_iff [OF assms])
qed

lemma covers_grid_header_region: "covers_grid t \<Longrightarrow> header_region_covered t"
  by (simp add: covers_grid_def header_region_covered_def)

subsection \<open>Failing cells and the loop over the elements\<close>

lemma table_to_dataframe_invalid:
  assumes "cell \<in> set (cells t)"
    and "\<not> cell_valid (max_header_prefix_row (cells t)) (nat (num_rows t)) (nat (num_cols t)) cell"
  shows "table_to_dataframe t =
           Inl (if num_rows t < 0 \<or> num_cols t < 0 then ValueError else IndexError)"
  using assms by (auto simp: table_to_dataframe_def build_grid_eq)


lemma tables_to_pandas_first_error:
  assumes "tables_reconstruct pre"
    and "etype e = ''table''" and "etable e = Some t" and "table_to_dataframe t = Inl err"
  shows "tables_to_pandas (pre @ e # post) = Inl err"
  using assms(1)
proof (induction pre)
  case Nil
  show ?case using assms(2-4) by simp
next
  case (Cons e' pre)
  then have IH: "tables_to_pandas (pre @ e # post) = Inl err"
    by (simp add: tables_reconstruct_def)
  show ?case
  proof (cases "etype e' = ''table'' \<and> etable e' \<noteq> None")
    case True
    with Cons.prems obtain df where "table_to_dataframe (the (etable e')) = Inr df"
      by (auto simp: tables_reconstruct_def split: sum.splits)
    then show ?thesis using True IH by simp
  next
    case False
    then show ?thesis using IH by auto
  qed
qed

lemma tables_to_pandas_all_ok:
  assumes "tables_reconstruct es"
  shows "\<exists>results. tables_to_pandas es = Inr results \<and> map fst results = es \<and>
           (\<forall>(e, r) \<in> set results. frame_matches e r)"
  using assms
proof (induction es)
  case Nil
  show ?case by simp
next
  case (Cons e es)
  then obtain results where r: "tables_to_pandas es = Inr results" "map fst results = es"
      "\<forall>(e, r) \<in> set results. frame_matches e r"
    by (auto simp: tables_reconstruct_def)
  show ?case
  proof (cases "etype e = ''table'' \<and> etable e \<noteq> None")
    case True
    with Cons.prems obtain df where df: "table_to_dataframe (the (etable e)) = Inr df"
      by (auto simp: tables_reconstruct_def split: sum.splits)
    have "tables_to_pandas (e # es) = Inr ((e, Some df) # results)"
      using True df r(1) by simp
    moreover have "frame_matches e (Some df)" using True df by (simp add: frame_matches_def)
    ultimately show ?thesis using r(2,3) by auto
  next
    case False
    have "tables_to_pandas (e # es) = Inr ((e, None) # results)"
      using False r(1) by auto
    moreover have "frame_matches e None" using False by (simp add: frame_matches_def)
    ultimately show ?thesis using r(2,3) by auto
  qed
qed

subsection \<open>Tables without header cells, and reordering of the cells\<close>

lemma grid_pos_nonneg: "0 \<le> r \<Longrightarrow> 0 \<le> c \<Longrightarrow> grid_pos h w (r, c) = (nat r, nat c)"
  by (simp add: grid_pos_def wrap_nonneg)

lemma span_nonneg:
  assumes "\<forall>r \<in> set (rows cell). 0 \<le> r" "\<forall>c \<in> set (cols cell). 0 \<le> c" "q \<in> span cell"
  shows "0 \<le> fst q \<and> 0 \<le> snd q"
  using assms by (cases q) (auto simp: span_def)

lemma grid_pos_span_iff:
  assumes "\<forall>r \<in> set (rows cell). 0 \<le> r" "\<forall>c \<in> set (cols cell). 0 \<le> c"
  shows "((r, c) \<in> grid_pos h w ` span cell) = ((int r, int c) \<in> span cell)"
proof
  assume "(r, c) \<in> grid_pos h w ` span cell"
  then obtain q where q: "q \<in> span cell" "(r, c) = grid_pos h w q" by blast
  from span_nonneg [OF assms q(1)] q(2) have "q = (int r, int c)"
    by (cases q) (simp add: grid_pos_nonneg)
  with q(1) show "(int r, int c) \<in> span cell" by simp
next
  assume "(int r, int c) \<in> span cell"
  moreover have "grid_pos h w (int r, int c) = (r, c)" by (simp add: grid_pos_nonneg)
  ultimately show "(r, c) \<in> grid_pos h w ` span cell" by force
qed

lemma data_cell_store:
  assumes rs: "rows cell = r0 # rs" and cs: "cols cell = c0 # cs"
    and d: "distinct (rows cell)" "distinct (cols cell)"
    and nn: "\<forall>r \<in> set (rows cell). 0 \<le> r" "\<forall>c \<in> set (cols cell). 0 \<le> c"
  shows "foldl (store_put h w) D (spec_data_writes cell) (r, c) =
     (if (int r, int c) \<in> span cell
      then Some (if (int r, int c) = (r0, c0) then content cell else [])
      else D (r, c))"
proof -
  let ?rest = "map (\<lambda>c. ((r0, c), [] :: string)) cs @
    concat (map (\<lambda>r. map (\<lambda>c. ((r, c), [] :: string)) (cols cell)) rs)"
  have W: "spec_data_writes cell = ((r0, c0), content cell) # ?rest"
    by (simp add: spec_data_writes_def rs cs)
  have sp: "fst ` set (spec_data_writes cell) = span cell"
    by (rule spec_data_writes_fst) (simp_all add: rs cs)
  have mf: "map fst ?rest = map (Pair r0) cs @ concat (map (\<lambda>r. map (Pair r) (cols cell)) rs)"
    by (simp add: map_concat comp_def)
  have "fst ` set ?rest = set (map fst ?rest)" by (simp only: set_map)
  also have "\<dots> = ({r0} \<times> set cs) \<union> (set rs \<times> set (cols cell))"
    unfolding mf by auto
  also have "\<dots> = span cell - {(r0, c0)}"
    using d by (auto simp: rs cs span_def)
  finally have rest_fst: "fst ` set ?rest = span cell - {(r0, c0)}" .
  have rest_snd: "\<forall>x \<in> set ?rest. snd x = []" by auto
  have fold: "foldl (store_put h w) D (spec_data_writes cell)
      = foldl (store_put h w) (store_put h w D ((r0, c0), content cell)) ?rest"
    by (simp only: W foldl_Cons)
  show ?thesis
  proof (cases "(int r, int c) \<in> span cell")
    case False
    then have "(r, c) \<notin> grid_pos h w ` fst ` set (spec_data_writes cell)"
      by (simp add: sp grid_pos_span_iff [OF nn] del: image_set)
    from foldl_store_put_other [OF this] False show ?thesis by simp
  next
    case True
    show ?thesis
    proof (cases "(int r, int c) = (r0, c0)")
      case tl: True
      have "(r, c) \<notin> grid_pos h w ` fst ` set ?rest"
      proof
        assume "(r, c) \<in> grid_pos h w ` fst ` set ?rest"
        then obtain q where q: "q \<in> span cell - {(r0, c0)}" "(r, c) = grid_pos h w q"
          unfolding rest_fst by blast
        then have "q \<in> span cell" by simp
        from span_nonneg [OF nn this] q(2) have "q = (int r, int c)"
          by (cases q) (simp add: grid_pos_nonneg)
        with q(1) tl show False by simp
      qed
      from foldl_store_put_other [OF this]
      have "foldl (store_put h w) D (spec_data_writes cell) (r, c)
          = store_put h w D ((r0, c0), content cell) (r, c)"
        by (simp only: fold)
      also have "\<dots> = Some (content cell)"
        using tl by (intro trans [OF store_put_same]) (auto simp: grid_pos_nonneg)
      finally show ?thesis using True tl by simp
    next
      case ntl: False
      have "grid_pos h w (int r, int c) = (r, c)" by (simp add: grid_pos_nonneg)
      moreover have "(int r, int c) \<in> fst ` set ?rest" using True ntl unfolding rest_fst by simp
      ultimately have "(r, c) \<in> grid_pos h w ` fst ` set ?rest" by force
      moreover have "\<forall>x \<in> set ?rest. grid_pos h w (fst x) = (r, c) \<longrightarrow> snd x = []"
        using rest_snd by blast
      ultimately have "foldl (store_put h w) (store_put h w D ((r0, c0), content cell)) ?rest (r, c) = Some []"
        by (rule foldl_store_put_const)
      then show ?thesis using True ntl by (simp only: fold if_True if_False)
    qed
  qed
qed

lemma no_header_store:
  assumes "\<forall>cell \<in> set cs. \<not> is_header cell \<and> rows cell \<noteq> [] \<and> cols cell \<noteq> [] \<and>
             distinct (rows cell) \<and> distinct (cols cell) \<and>
             (\<forall>r \<in> set (rows cell). 0 \<le> r) \<and> (\<forall>c \<in> set (cols cell). 0 \<le> c)"
  shows "foldl (store_put h w) (\<lambda>p. None) (concat (map (spec_cell_writes m) cs)) (r, c) =
     (case find (\<lambda>cell. (int r, int c) \<in> span cell) (rev cs) of
        None \<Rightarrow> None
      | Some cell \<Rightarrow>
          Some (if (int r, int c) = (hd (rows cell), hd (cols cell)) then content cell else []))"
  using assms
proof (induction cs rule: rev_induct)
  case Nil
  show ?case by simp
next
  case (snoc cell cs)
  let ?D = "foldl (store_put h w) (\<lambda>p. None) (concat (map (spec_cell_writes m) cs))"
  from snoc.prems have c: "\<not> is_header cell" "distinct (rows cell)" "distinct (cols cell)"
      "\<forall>r \<in> set (rows cell). 0 \<le> r" "\<forall>c \<in> set (cols cell). 0 \<le> c"
    and ne: "rows cell \<noteq> []" "cols cell \<noteq> []"
    by simp_all
  from ne obtain r0 rs c0 cs' where rc: "rows cell = r0 # rs" "cols cell = c0 # cs'"
    by (cases "rows cell"; cases "cols cell") auto
  have IH: "?D (r, c) =
     (case find (\<lambda>cell. (int r, int c) \<in> span cell) (rev cs) of
        None \<Rightarrow> None
      | Some cell \<Rightarrow>
          Some (if (int r, int c) = (hd (rows cell), hd (cols cell)) then content cell else []))"
    using snoc.prems by (intro snoc.IH) simp
  have "foldl (store_put h w) (\<lambda>p. None) (concat (map (spec_cell_writes m) (cs @ [cell]))) (r, c)
      = foldl (store_put h w) ?D (spec_data_writes cell) (r, c)"
    using c(1) by (simp add: spec_cell_writes_def)
  also have "\<dots> = (if (int r, int c) \<in> span cell
      then Some (if (int r, int c) = (r0, c0) then content cell else [])
      else ?D (r, c))"
    by (rule data_cell_store [OF rc c(2,3,4,5)])
  finally show ?case using IH rc by simp
qed

lemma build_grid_no_header:
  assumes "0 \<le> num_rows t" "0 \<le> num_cols t" "spans_nonempty (cells t)" "spans_in_bounds t"
    and "spans_distinct (cells t)" "no_header_cells (cells t)"
  shows "build_grid t = Inr (spec_topleft_grid t)"
proof -
  let ?m = "max_header_prefix_row (cells t)"
  have all: "\<forall>cell \<in> set (cells t). \<not> is_header cell \<and> rows cell \<noteq> [] \<and> cols cell \<noteq> [] \<and>
             distinct (rows cell) \<and> distinct (cols cell) \<and>
             (\<forall>r \<in> set (rows cell). 0 \<le> r) \<and> (\<forall>c \<in> set (cols cell). 0 \<le> c)"
    using assms(3-6)
    by (simp add: spans_nonempty_def spans_in_bounds_def spans_distinct_def no_header_cells_def)
  have "foldl (store_put (nat (num_rows t)) (nat (num_cols t))) (\<lambda>p. None)
          (concat (map (spec_cell_writes ?m) (cells t))) = nd_data (spec_topleft_grid t)"
  proof (rule ext)
    fix p :: "nat \<times> nat"
    obtain r c where p: "p = (r, c)" by (cases p)
    show "foldl (store_put (nat (num_rows t)) (nat (num_cols t))) (\<lambda>p. None)
          (concat (map (spec_cell_writes ?m) (cells t))) p = nd_data (spec_topleft_grid t) p"
      unfolding p no_header_store [OF all] by (simp add: spec_topleft_grid_def)
  qed
  then show ?thesis
    using assms(1,2) in_bounds_cell_valid [OF assms(4,3)]
    by (simp add: build_grid_eq spec_topleft_grid_def)
qed

lemma no_header_prefix: "no_header_cells cs \<Longrightarrow> max_header_prefix_row cs = - 1"
proof -
  assume "no_header_cells cs"
  then have "concat (map (\<lambda>cell. filter (\<lambda>row_num. is_header cell) (rows cell)) cs) = []"
    by (induction cs) (auto simp: no_header_cells_def)
  then show ?thesis
    by (simp add: max_header_prefix_row_def header_rows_def header_prefix_def)
qed

lemma header_rows_mset:
  assumes "mset cs' = mset cs"
  shows "header_rows cs' = header_rows cs"
proof -
  have s: "set cs' = set cs" using assms by (rule mset_eq_setD)
  have "header_rows xs =
      sorted_list_of_set (\<Union>cell \<in> set xs. set (filter (\<lambda>row_num. is_header cell) (rows cell)))"
    for xs
    unfolding header_rows_def sorted_list_of_set_sort_remdups [symmetric] by simp
  then show ?thesis using s by simp
qed

lemma foldl_concat_fold:
  "foldl f D (concat (map W cs)) = fold (\<lambda>cell D. foldl f D (W cell)) cs D"
  by (induction cs arbitrary: D) simp_all

lemma pairwise_disjoint_span:
  "pairwise_disjoint cs \<Longrightarrow> a \<in> set cs \<Longrightarrow> b \<in> set cs \<Longrightarrow> a \<noteq> b \<Longrightarrow> span a \<inter> span b = {}"
proof (induction cs)
  case Nil
  then show ?case by simp
next
  case (Cons x cs)
  then show ?case by (auto simp: Int_commute)
qed

lemma cell_store_dom:
  assumes "cell_valid m h w cell"
  shows "dom (foldl (store_put h w) (\<lambda>p. None) (spec_cell_writes m cell)) = grid_pos h w ` span cell"
  unfolding foldl_store_put_dom spec_cell_writes_fst [OF assms] by simp

lemma cell_store_commute:
  assumes va: "cell_valid m h w a" and vb: "cell_valid m h w b"
    and na: "\<forall>r \<in> set (rows a). 0 \<le> r" "\<forall>c \<in> set (cols a). 0 \<le> c"
    and nb: "\<forall>r \<in> set (rows b). 0 \<le> r" "\<forall>c \<in> set (cols b). 0 \<le> c"
    and disj: "span a \<inter> span b = {}"
  shows "foldl (store_put h w) (foldl (store_put h w) D (spec_cell_writes m a)) (spec_cell_writes m b)
       = foldl (store_put h w) (foldl (store_put h w) D (spec_cell_writes m b)) (spec_cell_writes m a)"
proof -
  let ?A = "foldl (store_put h w) (\<lambda>p. None) (spec_cell_writes m a)"
  let ?B = "foldl (store_put h w) (\<lambda>p. None) (spec_cell_writes m b)"
  have "dom ?A \<inter> dom ?B = {}"
  proof (rule ccontr)
    assume "dom ?A \<inter> dom ?B \<noteq> {}"
    then obtain p where "p \<in> grid_pos h w ` span a" "p \<in> grid_pos h w ` span b"
      unfolding cell_store_dom [OF va] cell_store_dom [OF vb] by blast
    then obtain qa qb where q: "qa \<in> span a" "p = grid_pos h w qa" "qb \<in> span b" "p = grid_pos h w qb"
      by blast
    from span_nonneg [OF na q(1)] span_nonneg [OF nb q(3)] q(2,4) have "qa = qb"
      by (cases qa; cases qb) (auto simp: grid_pos_nonneg)
    with q(1,3) disj show False by blast
  qed
  then have AB: "?A ++ ?B = ?B ++ ?A" by (rule map_add_comm)
  have "(D ++ ?A) ++ ?B = D ++ (?A ++ ?B)" by (simp only: map_add_assoc)
  also have "\<dots> = D ++ (?B ++ ?A)" by (simp only: AB)
  also have "\<dots> = (D ++ ?B) ++ ?A" by (simp only: map_add_assoc)
  finally have "(D ++ ?A) ++ ?B = (D ++ ?B) ++ ?A" .
  then show ?thesis
    by (simp only: foldl_store_put_map_add [of h w "D ++ ?A"] foldl_store_put_map_add [of h w "D ++ ?B"]
        foldl_store_put_map_add [of h w D])
qed

lemma fill_cells_mset:
  assumes p: "mset cs' = mset cs" and nn: "indices_nonneg cs" and pd: "pairwise_disjoint cs"
  shows "fill_cells m cs' g = fill_cells m cs g"
proof -
  let ?h = "nd_rows g" and ?w = "nd_cols g"
  let ?F = "\<lambda>cell D. foldl (store_put ?h ?w) D (spec_cell_writes m cell)"
  have s: "set cs' = set cs" using p by (rule mset_eq_setD)
  show ?thesis
  proof (cases "\<forall>cell \<in> set cs. cell_valid m ?h ?w cell")
    case False
    then show ?thesis using s by (auto simp: fill_cells_eq)
  next
    case True
    have comm: "?F x \<circ> ?F y = ?F y \<circ> ?F x" if "x \<in> set cs" "y \<in> set cs" for x y
    proof (cases "x = y")
      case True
      then show ?thesis by simp
    next
      case False
      have d: "span y \<inter> span x = {}" using pairwise_disjoint_span [OF pd that(2,1)] False by blast
      have nx: "\<forall>r \<in> set (rows x). 0 \<le> r" "\<forall>c \<in> set (cols x). 0 \<le> c"
        and ny: "\<forall>r \<in> set (rows y). 0 \<le> r" "\<forall>c \<in> set (cols y). 0 \<le> c"
        using nn that by (simp_all add: indices_nonneg_def)
      have vx: "cell_valid m ?h ?w x" and vy: "cell_valid m ?h ?w y" using True that by simp_all
      show ?thesis
        by (rule ext) (simp add: cell_store_commute [OF vy vx ny nx d])
    qed
    have "fold ?F cs = fold ?F cs'" using comm p [symmetric] by (rule fold_multiset_equiv)
    then have "foldl (store_put ?h ?w) (nd_data g) (concat (map (spec_cell_writes m) cs'))
        = foldl (store_put ?h ?w) (nd_data g) (concat (map (spec_cell_writes m) cs))"
      by (simp only: foldl_concat_fold)
    then show ?thesis using True s by (simp add: fill_cells_eq)
  qed
qed

lemma table_to_dataframe_mset:
  assumes "mset cs' = mset (cells t)" "indices_nonneg (cells t)" "pairwise_disjoint (cells t)"
  shows "table_to_dataframe (t\<lparr>cells := cs'\<rparr>) = table_to_dataframe t"
proof -
  have m: "max_header_prefix_row cs' = max_header_prefix_row (cells t)"
    by (simp add: max_header_prefix_row_def header_rows_mset [OF assms(1)])
  have "build_grid (t\<lparr>cells := cs'\<rparr>) = build_grid t"
    by (cases "np_empty (num_rows t) (num_cols t)")
       (simp_all add: build_grid_def m fill_cells_mset [OF assms])
  then show ?thesis
    by (cases "build_grid t") (simp_all add: table_to_dataframe_def m)
qed

section \<open>The claims\<close>

text \<open>
  C1. For every table, let \<open>H\<close> be the sorted, deduplicated sequence of the row indices
  that appear in the rows of some header-flagged cell. The computed
  \<open>max_header_prefix_row\<close> is the smallest index \<open>i\<close> with \<open>H[i] \<noteq> i\<close> if there is one
  (the stopping index itself), and \<open>len(H) - 1\<close> otherwise, which is \<open>-1\<close> for an empty
  \<open>H\<close>. For \<open>H = [0, 1, 2, 4]\<close> the result is 3.
\<close>

theorem C1_header_prefix:
  "sorted (header_rows cs) \<and> distinct (header_rows cs) \<and>
   set (header_rows cs) = (\<Union>c \<in> {c \<in> set cs. is_header c}. set (rows c)) \<and>
   max_header_prefix_row cs =
     (if \<exists>i<length (header_rows cs). header_rows cs ! i \<noteq> int i
      then int (LEAST i. i < length (header_rows cs) \<and> header_rows cs ! i \<noteq> int i)
      else int (length (header_rows cs)) - 1) \<and>
   (header_rows cs = [] \<longrightarrow> max_header_prefix_row cs = - 1) \<and>
   (header_rows cs = [0, 1, 2, 4] \<longrightarrow> max_header_prefix_row cs = 3)"
proof -
  have "header_prefix [] = - 1" by (simp add: header_prefix_def)
  moreover have "header_prefix [0, 1, 2, 4] = 3" by code_simp
  ultimately show ?thesis
    using header_rows_sorted_distinct [of cs] header_rows_set [of cs]
      header_prefix_spec [of "header_rows cs"]
    by (simp add: max_header_prefix_row_def)
qed

theorem C1_header_prefix_witness:
  "header_rows ex_gap_cells = [0, 1, 2, 4] \<and> max_header_prefix_row ex_gap_cells = 3 \<and>
   header_rows [] = [] \<and> max_header_prefix_row [] = - 1"
proof -
  have "header_rows ex_gap_cells = [0, 1, 2, 4]" by code_simp
  moreover have "header_rows [] = []" by (simp add: header_rows_def)
  ultimately show ?thesis
    using C1_header_prefix [of ex_gap_cells] C1_header_prefix [of "[]"] by simp
qed

text \<open>
  C2. For every table whose cell spans lie inside the grid bounds (and are not empty, so
  that \<open>rows[0]\<close> and \<open>cols[0]\<close> exist), the dense grid is what the writes of the
  specification give when the cells are scanned in input order and a later write to a
  position replaces an earlier one: a header cell with \<open>rows[0] \<le> max_header_prefix_row\<close>
  writes its content into every column of \<open>cols\<close> at row \<open>rows[0]\<close> and the empty string
  into every column of \<open>cols\<close> at every row of \<open>rows[1:]\<close>; every other cell writes its
  content at \<open>(rows[0], cols[0])\<close> only, the empty string at \<open>(rows[0], c)\<close> for \<open>c\<close> in
  \<open>cols[1:]\<close>, and the empty string at every position of \<open>rows[1:] \<times> cols\<close>.
\<close>

theorem C2_grid_fill:
  assumes "0 \<le> num_rows t" and "0 \<le> num_cols t"
    and "spans_nonempty (cells t)" and "spans_in_bounds t"
  shows "build_grid t = Inr (spec_grid t)"
  using assms by (rule build_grid_in_bounds)

theorem C2_grid_fill_witness:
  "0 \<le> num_rows ex_name_table \<and> 0 \<le> num_cols ex_name_table \<and>
   spans_nonempty (cells ex_name_table) \<and> spans_in_bounds ex_name_table \<and>
   build_grid ex_name_table = Inr (spec_grid ex_name_table)"
proof -
  have h: "0 \<le> num_rows ex_name_table" "0 \<le> num_cols ex_name_table"
    "spans_nonempty (cells ex_name_table)" "spans_in_bounds ex_name_table"
    by (simp_all add: ex_name_table_def spans_nonempty_def spans_in_bounds_def)
  from C2_grid_fill [OF h] h show ?thesis by simp
qed

text \<open>
  C3. For every table whose grid \<open>g\<close> is assembled: if \<open>max_header_prefix_row < 0\<close>, the
  column labels are absent and the data rows are the entire grid; if
  \<open>max_header_prefix_row \<ge> 0\<close> (and the header region holds strings), the column labels are
  present, one per column, entry \<open>c\<close> being rows \<open>0..max_header_prefix_row\<close> of column \<open>c\<close>
  read top to bottom, the non-empty values kept, every value equal to one already kept
  dropped, and the survivors joined with \<open>" | "\<close>; the data rows are rows
  \<open>max_header_prefix_row + 1 .. num_rows - 1\<close> of the grid, unmodified. A column with
  \<open>Region\<close>, \<open>Region\<close> yields \<open>Region\<close>; one with \<open>2023\<close>, \<open>Q1\<close> yields \<open>2023 | Q1\<close>.
\<close>

theorem C3_header_flattening:
  assumes "build_grid t = Inr g"
  shows "(max_header_prefix_row (cells t) < 0 \<longrightarrow>
            table_to_dataframe t =
              Inr \<lparr>df_columns = None, df_values = map (grid_row g) [0..<nat (num_rows t)]\<rparr>) \<and>
         (0 \<le> max_header_prefix_row (cells t) \<and>
          header_region_set g (max_header_prefix_row (cells t)) \<longrightarrow>
            table_to_dataframe t =
              Inr \<lparr>df_columns =
                     Some (map (spec_label g (max_header_prefix_row (cells t)))
                             [0..<nat (num_cols t)]),
                   df_values =
                     map (grid_row g)
                       [nat (max_header_prefix_row (cells t) + 1)..<nat (num_rows t)]\<rparr>) \<and>
         int (nd_rows g) = num_rows t \<and> int (nd_cols g) = num_cols t \<and>
         flatten_column [Some ''Region'', Some ''Region''] = Inr ''Region'' \<and>
         flatten_column [Some ''2023'', Some ''Q1''] = Inr ''2023 | Q1''"
proof -
  let ?m = "max_header_prefix_row (cells t)"
  have neg: "?m < 0 \<Longrightarrow> nat (?m + 1) = 0" by simp
  have ex1: "flatten_column [Some ''Region'', Some ''Region''] = Inr ''Region''" by code_simp
  have ex2: "flatten_column [Some ''2023'', Some ''Q1''] = Inr ''2023 | Q1''" by code_simp
  show ?thesis
    using build_grid_shape [OF assms] neg ex1 ex2
    by (simp add: table_to_dataframe_eq [OF assms] header_region_set_no_header)
qed

theorem C3_header_flattening_witness:
  "build_grid ex_region_table = Inr (spec_grid ex_region_table) \<and>
   0 \<le> max_header_prefix_row (cells ex_region_table) \<and>
   header_region_set (spec_grid ex_region_table) (max_header_prefix_row (cells ex_region_table)) \<and>
   table_to_dataframe ex_region_table =
     Inr \<lparr>df_columns = Some [''Region'', ''2023 | Q1''], df_values = [[Some ''East'', Some ''7'']]\<rparr> \<and>
   build_grid ex_plain_table = Inr (spec_grid ex_plain_table) \<and>
   max_header_prefix_row (cells ex_plain_table) < 0 \<and>
   table_to_dataframe ex_plain_table =
     Inr \<lparr>df_columns = None, df_values = [[Some ''a'', Some ''b''], [Some ''c'', Some []]]\<rparr>"
proof -
  have g: "build_grid ex_region_table = Inr (spec_grid ex_region_table)"
    by (rule build_grid_in_bounds)
       (simp_all add: ex_region_table_def spans_nonempty_def spans_in_bounds_def)
  have m: "0 \<le> max_header_prefix_row (cells ex_region_table)" by code_simp
  have s: "header_region_set (spec_grid ex_region_table) (max_header_prefix_row (cells ex_region_table))"
    by code_simp
  have v: "map (spec_label (spec_grid ex_region_table) (max_header_prefix_row (cells ex_region_table)))
             [0..<nat (num_cols ex_region_table)] = [''Region'', ''2023 | Q1'']"
    "map (grid_row (spec_grid ex_region_table))
       [nat (max_header_prefix_row (cells ex_region_table) + 1)..<nat (num_rows ex_region_table)]
       = [[Some ''East'', Some ''7'']]"
    by code_simp+
  have g': "build_grid ex_plain_table = Inr (spec_grid ex_plain_table)"
    by (rule build_grid_in_bounds)
       (simp_all add: ex_plain_table_def spans_nonempty_def spans_in_bounds_def)
  have m': "max_header_prefix_row (cells ex_plain_table) < 0" by code_simp
  have v': "map (grid_row (spec_grid ex_plain_table)) [0..<nat (num_rows ex_plain_table)]
      = [[Some ''a'', Some ''b''], [Some ''c'', Some []]]"
    by code_simp
  from C3_header_flattening [OF g] C3_header_flattening [OF g'] g m s v g' m' v'
  show ?thesis by simp
qed

text \<open>
  C4. For every well-formed table (spans not empty, in bounds, and covering every grid
  position), the grid is assembled and is the grid of the specification; every position
  of it holds the string of a write that a cell whose span contains the position makes at
  that position (the content of that cell or the empty string), never the unset marker.
  The data frame is built from that grid: its labels are the flattened header region, its
  data rows are the rows below it, and no value of them is the unset marker. The unset
  marker differs from the empty string.
\<close>

theorem C4_full_coverage:
  assumes "well_formed t"
  shows "build_grid t = Inr (spec_grid t) \<and>
         (\<forall>r<nat (num_rows t). \<forall>c<nat (num_cols t).
            \<exists>cell \<in> set (cells t). (int r, int c) \<in> span cell \<and>
              (\<exists>x \<in> set (spec_cell_writes (max_header_prefix_row (cells t)) cell).
                 fst x = (int r, int c) \<and> nd_data (spec_grid t) (r, c) = Some (snd x)) \<and>
              (nd_data (spec_grid t) (r, c) = Some (content cell) \<or>
               nd_data (spec_grid t) (r, c) = Some [])) \<and>
         table_to_dataframe t =
           Inr \<lparr>df_columns =
                  (if 0 \<le> max_header_prefix_row (cells t)
                   then Some (map (spec_label (spec_grid t) (max_header_prefix_row (cells t)))
                                [0..<nat (num_cols t)])
                   else None),
                df_values =
                  map (grid_row (spec_grid t))
                    [nat (max_header_prefix_row (cells t) + 1)..<nat (num_rows t)]\<rparr> \<and>
         (\<forall>r<nat (num_rows t). None \<notin> set (grid_row (spec_grid t) r)) \<and>
         (None :: string option) \<noteq> Some []"
proof -
  let ?g = "spec_grid t"
  let ?m = "max_header_prefix_row (cells t)"
  from assms have dims: "0 \<le> num_rows t" "0 \<le> num_cols t"
    and ne: "spans_nonempty (cells t)" and ib: "spans_in_bounds t" and cov: "covers_grid t"
    by (simp_all add: well_formed_def)
  have g: "build_grid t = Inr ?g" using dims ne ib by (rule build_grid_in_bounds)
  have some: "nd_data ?g (r, c) \<noteq> None" if "r < nat (num_rows t)" "c < nat (num_cols t)" for r c
  proof -
    have "covered (cells t) r c" using cov that by (simp add: covers_grid_def)
    then show ?thesis by (simp only: spec_grid_set_iff [OF ne ib])
  qed
  have cellv: "\<exists>cell \<in> set (cells t). (int r, int c) \<in> span cell \<and>
      (\<exists>x \<in> set (spec_cell_writes ?m cell).
         fst x = (int r, int c) \<and> nd_data ?g (r, c) = Some (snd x)) \<and>
      (nd_data ?g (r, c) = Some (content cell) \<or> nd_data ?g (r, c) = Some [])"
    if "r < nat (num_rows t)" "c < nat (num_cols t)" for r c
  proof -
    from some [OF that] obtain v where v: "nd_data ?g (r, c) = Some v" by auto
    from spec_grid_write [OF ne ib v] show ?thesis unfolding v by blast
  qed
  have hs: "header_region_set ?g ?m"
    using covers_grid_header_region [OF cov] by (simp add: header_region_set_spec_grid [OF ne ib])
  have df: "table_to_dataframe t =
      Inr \<lparr>df_columns = (if 0 \<le> ?m then Some (map (spec_label ?g ?m) [0..<nat (num_cols t)]) else None),
           df_values = map (grid_row ?g) [nat (?m + 1)..<nat (num_rows t)]\<rparr>"
    using hs by (simp add: table_to_dataframe_eq [OF g])
  have rows: "None \<notin> set (grid_row ?g r)" if "r < nat (num_rows t)" for r
  proof -
    have "nd_cols ?g = nat (num_cols t)" by (simp add: spec_grid_def)
    then show ?thesis using some [OF that] by (fastforce simp: grid_row_def)
  qed
  from g cellv df rows show ?thesis by blast
qed

theorem C4_full_coverage_witness:
  "well_formed ex_name_table \<and>
   build_grid ex_name_table = Inr (spec_grid ex_name_table) \<and>
   map (grid_row (spec_grid ex_name_table)) [0..<3] =
     [[Some ''Name'', Some ''Name''], [Some [], Some []], [Some ''Alice'', Some ''30'']] \<and>
   table_to_dataframe ex_name_table =
     Inr \<lparr>df_columns = Some [''Name'', ''Name''],
          df_values = [[Some ''Alice'', Some ''30'']]\<rparr>"
proof -
  have w: "well_formed ex_name_table" by code_simp
  have v: "map (grid_row (spec_grid ex_name_table)) [0..<3] =
     [[Some ''Name'', Some ''Name''], [Some [], Some []], [Some ''Alice'', Some ''30'']]"
    "map (spec_label (spec_grid ex_name_table) (max_header_prefix_row (cells ex_name_table)))
       [0..<nat (num_cols ex_name_table)] = [''Name'', ''Name'']"
    "map (grid_row (spec_grid ex_name_table))
       [nat (max_header_prefix_row (cells ex_name_table) + 1)..<nat (num_rows ex_name_table)]
       = [[Some ''Alice'', Some ''30'']]"
    "0 \<le> max_header_prefix_row (cells ex_name_table)"
    by code_simp+
  from C4_full_coverage [OF w] w v show ?thesis by simp
qed




text \<open>
  C6, as amended. For every table containing a cell whose \<open>rows\<close> is empty, or whose
  \<open>cols\<close> is empty and which is not a header cell with \<open>rows[0] \<le> max_header_prefix_row\<close>,
  reconstruction fails with \<open>IndexError\<close> (\<open>ValueError\<close> when a dimension is negative).
\<close>

theorem C6_empty_span_amended:
  assumes "cell \<in> set (cells t)"
    and "rows cell = [] \<or>
         (cols cell = [] \<and>
          \<not> (is_header cell \<and> hd (rows cell) \<le> max_header_prefix_row (cells t)))"
  shows "table_to_dataframe t =
           Inl (if num_rows t < 0 \<or> num_cols t < 0 then ValueError else IndexError)"
proof -
  have "\<not> cell_valid (max_header_prefix_row (cells t)) (nat (num_rows t)) (nat (num_cols t)) cell"
    using assms(2) by (auto simp: cell_valid_def)
  from table_to_dataframe_invalid [OF assms(1) this] show ?thesis .
qed

theorem C6_empty_span_amended_witness:
  "\<lparr>rows = [], cols = [0], content = ''X'', is_header = False\<rparr> \<in> set (cells ex_empty_rows_table) \<and>
   table_to_dataframe ex_empty_rows_table = Inl IndexError"
  using C6_empty_span_amended
    [of "\<lparr>rows = [], cols = [0], content = ''X'', is_header = False\<rparr>" ex_empty_rows_table]
  by (simp add: ex_empty_rows_table_def)

text \<open>
  The claim as stated fails for a header cell inside the header prefix whose \<open>cols\<close> is
  empty: its loops run over nothing, and the table is reconstructed.
\<close>

theorem C6_empty_span_counterexample:
  "(\<exists>cell \<in> set (cells ex_empty_cols_table). cols cell = []) \<and>
   table_to_dataframe ex_empty_cols_table = Inr \<lparr>df_columns = Some [''H''], df_values = []\<rparr>"
  by code_simp

text \<open>
  C7, as amended. An exception raised while reconstructing one table is not local to it:
  \<open>tables_to_pandas\<close> fails with the exception of the first table that raises, and returns
  no result for any element, whatever comes before or after that table.
\<close>

theorem C7_error_propagation_amended:
  assumes "tables_reconstruct pre"
    and "etype e = ''table''" and "etable e = Some t" and "table_to_dataframe t = Inl err"
  shows "tables_to_pandas (pre @ e # post) = Inl err"
  using assms by (rule tables_to_pandas_first_error)

theorem C7_error_propagation_amended_witness:
  "tables_reconstruct [ex_text_element, ex_good_element] \<and>
   etype ex_bad_element = ''table'' \<and> etable ex_bad_element = Some ex_oob_table \<and>
   table_to_dataframe ex_oob_table = Inl IndexError \<and>
   tables_to_pandas ([ex_text_element, ex_good_element] @ ex_bad_element # [ex_good_element])
     = Inl IndexError"
proof -
  have a: "tables_reconstruct [ex_text_element, ex_good_element]" by code_simp
  have b: "etype ex_bad_element = ''table''" "etable ex_bad_element = Some ex_oob_table"
    by (simp_all add: ex_bad_element_def)
  have c: "table_to_dataframe ex_oob_table = Inl IndexError" by code_simp
  from C7_error_propagation_amended [OF a b c] a b c show ?thesis by simp
qed

text \<open>
  The claim as stated fails on a response with one table that reconstructs and one that
  raises, in either order: the call returns no list at all.
\<close>

theorem C7_error_propagation_counterexample:
  "table_to_dataframe ex_name_table =
     Inr \<lparr>df_columns = Some [''Name'', ''Name''], df_values = [[Some ''Alice'', Some ''30'']]\<rparr> \<and>
   table_to_dataframe ex_oob_table = Inl IndexError \<and>
   tables_to_pandas [ex_good_element, ex_bad_element] = Inl IndexError \<and>
   tables_to_pandas [ex_bad_element, ex_good_element] = Inl IndexError"
  by code_simp

text \<open>
  C8, as amended. For every table whose spans are not empty and in bounds, reconstruction
  completes exactly when every position of the header region (rows
  \<open>0..max_header_prefix_row\<close>) lies in some span; it then returns the labels and the data
  rows, in which a position holds the unset marker if and only if no span contains it. When
  a position of the header region is left unassigned, reconstruction fails with
  \<open>TypeError\<close>.
\<close>

theorem C8_gaps_amended:
  assumes "0 \<le> num_rows t" and "0 \<le> num_cols t"
    and "spans_nonempty (cells t)" and "spans_in_bounds t"
  shows "(header_region_covered t \<longrightarrow>
            table_to_dataframe t =
              Inr \<lparr>df_columns =
                     (if 0 \<le> max_header_prefix_row (cells t)
                      then Some (map (spec_label (spec_grid t) (max_header_prefix_row (cells t)))
                                   [0..<nat (num_cols t)])
                      else None),
                   df_values =
                     map (grid_row (spec_grid t))
                       [nat (max_header_prefix_row (cells t) + 1)..<nat (num_rows t)]\<rparr>) \<and>
         (\<not> header_region_covered t \<longrightarrow> table_to_dataframe t = Inl TypeError) \<and>
         (\<forall>r c. (nd_data (spec_grid t) (r, c) = None) = (\<not> covered (cells t) r c))"
proof -
  have g: "build_grid t = Inr (spec_grid t)" using assms by (rule build_grid_in_bounds)
  have "(nd_data (spec_grid t) (r, c) = None) = (\<not> covered (cells t) r c)" for r c
    using spec_grid_set_iff [OF assms(3,4), of r c] by blast
  then show ?thesis
    by (simp add: table_to_dataframe_eq [OF g] header_region_set_spec_grid [OF assms(3,4)])
qed

theorem C8_gaps_amended_witness:
  "spans_in_bounds ex_data_gap_table \<and> spans_nonempty (cells ex_data_gap_table) \<and>
   \<not> covers_grid ex_data_gap_table \<and> header_region_covered ex_data_gap_table \<and>
   table_to_dataframe ex_data_gap_table =
     Inr \<lparr>df_columns = Some [''A'', ''B''], df_values = [[Some ''x'', None]]\<rparr> \<and>
   \<not> header_region_covered ex_header_gap_table \<and>
   table_to_dataframe ex_header_gap_table = Inl TypeError"
proof -
  have h: "0 \<le> num_rows ex_data_gap_table" "0 \<le> num_cols ex_data_gap_table"
    "spans_nonempty (cells ex_data_gap_table)" "spans_in_bounds ex_data_gap_table"
    by (simp_all add: ex_data_gap_table_def spans_nonempty_def spans_in_bounds_def)
  have k: "0 \<le> num_rows ex_header_gap_table" "0 \<le> num_cols ex_header_gap_table"
    "spans_nonempty (cells ex_header_gap_table)" "spans_in_bounds ex_header_gap_table"
    by (simp_all add: ex_header_gap_table_def spans_nonempty_def spans_in_bounds_def)
  have c: "header_region_covered ex_data_gap_table" "\<not> covers_grid ex_data_gap_table"
    "\<not> header_region_covered ex_header_gap_table"
    by code_simp+
  have v: "table_to_dataframe ex_data_gap_table =
     Inr \<lparr>df_columns = Some [''A'', ''B''], df_values = [[Some ''x'', None]]\<rparr>"
    by code_simp
  from C8_gaps_amended [OF h] C8_gaps_amended [OF k] h c v show ?thesis by simp
qed

text \<open>
  The claim as stated fails when the unassigned position lies inside the header region:
  joining the header values raises \<open>TypeError\<close>.
\<close>

theorem C8_gaps_counterexample:
  "spans_in_bounds ex_header_gap_table \<and> spans_nonempty (cells ex_header_gap_table) \<and>
   \<not> covers_grid ex_header_gap_table \<and>
   table_to_dataframe ex_header_gap_table = Inl TypeError"
  by code_simp

text \<open>
  C9. For every table with no header-flagged cell (spans not empty, in bounds, no index
  repeated within a cell), reconstruction yields no column labels, and data rows equal to
  the grid in which the content of each cell appears only at its top-left position
  \<open>(rows[0], cols[0])\<close> and the rest of its span is blank. For every permutation of a cell
  list whose spans do not overlap each other (indices not negative), the reconstruction
  output is that of the original ordering.
\<close>

theorem C9_no_header_round_trip:
  "(0 \<le> num_rows t \<and> 0 \<le> num_cols t \<and> spans_nonempty (cells t) \<and> spans_in_bounds t \<and>
    spans_distinct (cells t) \<and> no_header_cells (cells t) \<longrightarrow>
      table_to_dataframe t =
        Inr \<lparr>df_columns = None,
             df_values = map (grid_row (spec_topleft_grid t)) [0..<nat (num_rows t)]\<rparr>) \<and>
   (mset cs' = mset (cells t) \<and> indices_nonneg (cells t) \<and> pairwise_disjoint (cells t) \<longrightarrow>
      table_to_dataframe (t\<lparr>cells := cs'\<rparr>) = table_to_dataframe t)"
proof (intro conjI impI)
  assume a: "0 \<le> num_rows t \<and> 0 \<le> num_cols t \<and> spans_nonempty (cells t) \<and> spans_in_bounds t \<and>
    spans_distinct (cells t) \<and> no_header_cells (cells t)"
  then have g: "build_grid t = Inr (spec_topleft_grid t)" by (intro build_grid_no_header) simp_all
  have m: "max_header_prefix_row (cells t) = - 1" using a by (simp add: no_header_prefix)
  show "table_to_dataframe t =
        Inr \<lparr>df_columns = None,
             df_values = map (grid_row (spec_topleft_grid t)) [0..<nat (num_rows t)]\<rparr>"
    by (simp add: table_to_dataframe_eq [OF g] m header_region_set_no_header)
next
  assume "mset cs' = mset (cells t) \<and> indices_nonneg (cells t) \<and> pairwise_disjoint (cells t)"
  then show "table_to_dataframe (t\<lparr>cells := cs'\<rparr>) = table_to_dataframe t"
    by (intro table_to_dataframe_mset) simp_all
qed

theorem C9_no_header_round_trip_witness:
  "0 \<le> num_rows ex_plain_table \<and> 0 \<le> num_cols ex_plain_table \<and>
   spans_nonempty (cells ex_plain_table) \<and> spans_in_bounds ex_plain_table \<and>
   spans_distinct (cells ex_plain_table) \<and> no_header_cells (cells ex_plain_table) \<and>
   mset (rev (cells ex_plain_table)) = mset (cells ex_plain_table) \<and>
   indices_nonneg (cells ex_plain_table) \<and> pairwise_disjoint (cells ex_plain_table) \<and>
   table_to_dataframe ex_plain_table =
     Inr \<lparr>df_columns = None,
          df_values = [[Some ''a'', Some ''b''], [Some ''c'', Some []]]\<rparr> \<and>
   table_to_dataframe (ex_plain_table\<lparr>cells := rev (cells ex_plain_table)\<rparr>) =
     table_to_dataframe ex_plain_table"
proof -
  have h: "0 \<le> num_rows ex_plain_table \<and> 0 \<le> num_cols ex_plain_table \<and>
      spans_nonempty (cells ex_plain_table) \<and> spans_in_bounds ex_plain_table \<and>
      spans_distinct (cells ex_plain_table) \<and> no_header_cells (cells ex_plain_table)"
    by code_simp
  have p: "mset (rev (cells ex_plain_table)) = mset (cells ex_plain_table) \<and>
      indices_nonneg (cells ex_plain_table) \<and> pairwise_disjoint (cells ex_plain_table)"
  proof -
    have "indices_nonneg (cells ex_plain_table)" "pairwise_disjoint (cells ex_plain_table)"
      by code_simp+
    then show ?thesis by simp
  qed
  have v: "map (grid_row (spec_topleft_grid ex_plain_table)) [0..<nat (num_rows ex_plain_table)]
      = [[Some ''a'', Some ''b''], [Some ''c'', Some []]]"
    by code_simp
  from C9_no_header_round_trip [of ex_plain_table "rev (cells ex_plain_table)"] h p v
  show ?thesis by simp
qed

text \<open>
  C10. For every input response (in which each table is reconstructed without an
  exception), \<open>tables_to_pandas\<close> returns a list with exactly one pair per element of
  \<open>data["elements"]\<close>, in the same order, whose first component is the element itself;
  the second component is the data frame of the table for an element of type \<open>table\<close>
  whose table is not null, and \<open>None\<close> for every other element, an element of type
  \<open>table\<close> with a null table included.
\<close>

theorem C10_result_shape:
  assumes "tables_reconstruct es"
  shows "\<exists>results. tables_to_pandas es = Inr results \<and> length results = length es \<and>
           map fst results = es \<and> (\<forall>(e, r) \<in> set results. frame_matches e r)"
proof -
  from tables_to_pandas_all_ok [OF assms]
  obtain results where r: "tables_to_pandas es = Inr results" "map fst results = es"
      "\<forall>(e, r) \<in> set results. frame_matches e r"
    by blast
  from r(2) have "length results = length es" by (metis length_map)
  with r show ?thesis by blast
qed

theorem C10_result_shape_witness:
  "tables_reconstruct [ex_text_element, ex_good_element, ex_null_table_element] \<and>
   tables_to_pandas [ex_text_element, ex_good_element, ex_null_table_element] =
     Inr [(ex_text_element, None),
          (ex_good_element,
           Some \<lparr>df_columns = Some [''Name'', ''Name''],
                 df_values = [[Some ''Alice'', Some ''30'']]\<rparr>),
          (ex_null_table_element, None)] \<and>
   (\<exists>results. tables_to_pandas [ex_text_element, ex_good_element, ex_null_table_element] = Inr results \<and>
      length results = 3 \<and>
      map fst results = [ex_text_element, ex_good_element, ex_null_table_element] \<and>
      (\<forall>(e, r) \<in> set results. frame_matches e r))"
proof -
  have a: "tables_reconstruct [ex_text_element, ex_good_element, ex_null_table_element]"
    by code_simp
  have v: "tables_to_pandas [ex_text_element, ex_good_element, ex_null_table_element] =
     Inr [(ex_text_element, None),
          (ex_good_element,
           Some \<lparr>df_columns = Some [''Name'', ''Name''],
                 df_values = [[Some ''Alice'', Some ''30'']]\<rparr>),
          (ex_null_table_element, None)]"
    by code_simp
  from C10_result_shape [OF a] a v show ?thesis by simp
qed

end
